theory Spec2Isabelle
  imports Complex_Main "HOL-Library.Sublist"
begin

section \<open>JavaScript numbers, idealised as reals\<close>

text \<open>
  A JavaScript number is modelled as a real: the arithmetic of the wheel is read in exact
  arithmetic, rounding is not modelled.  A value that the source tests with
  \<^verbatim>\<open>Number.isFinite\<close> is a \<open>real option\<close>, where \<open>None\<close> stands for
  \<^verbatim>\<open>NaN\<close> and the two infinities.  A call of \<^verbatim>\<open>Math.random()\<close> is a
  parameter \<open>u\<close> with \<open>0 \<le> u < 1\<close>.
\<close>

definition js_trunc :: "real \<Rightarrow> int" where
  "js_trunc x = (if 0 \<le> x then \<lfloor>x\<rfloor> else - \<lfloor>- x\<rfloor>)"

text \<open>The operator \<^verbatim>\<open>%\<close>: the remainder takes the sign of the dividend.\<close>

definition js_rem :: "real \<Rightarrow> real \<Rightarrow> real" where
  "js_rem x y = x - y * of_int (js_trunc (x / y))"

text \<open>\<^verbatim>\<open>Math.floor\<close>, with a number as its result.\<close>

definition js_floor :: "real \<Rightarrow> real" where
  "js_floor x = of_int \<lfloor>x\<rfloor>"

text \<open>
  \<^verbatim>\<open>xs[i]\<close> for a number \<open>i\<close>: \<^verbatim>\<open>undefined\<close> (here \<open>None\<close>) unless \<open>i\<close>
  is an integer within the array.
\<close>

definition js_index :: "'a list \<Rightarrow> real \<Rightarrow> 'a option" where
  "js_index xs i =
     (if of_int \<lfloor>i\<rfloor> = i \<and> 0 \<le> i \<and> i < real (length xs) then Some (xs ! nat \<lfloor>i\<rfloor>) else None)"

text \<open>The idiom \<^verbatim>\<open>(((x % 360) + 360) % 360)\<close> of all four programs.\<close>

definition normalize360 :: "real \<Rightarrow> real" where
  "normalize360 x = js_rem (js_rem x 360 + 360) 360"

definition unit_draw :: "real \<Rightarrow> bool" where
  "unit_draw u \<longleftrightarrow> 0 \<le> u \<and> u < 1"


section \<open>Venues\<close>

text \<open>
  The object built by \<^verbatim>\<open>toPlace\<close>.  The food programs call the category list
  \<^verbatim>\<open>cuisine\<close>, the booze programs \<^verbatim>\<open>types\<close>.
\<close>

type_synonym tagmap = "string \<rightharpoonup> string"

record place =
  pid :: string
  pname :: string
  categories :: "string list"
  tags :: tagmap
  plat :: "real option"
  plon :: "real option"
  website :: string
  phone :: string
  street :: string
  city :: string


section \<open>Deduplication\<close>

text \<open>
  The loop of \<^verbatim>\<open>dedupeById\<close> (app.js, and the same loop written inline in
  \<^verbatim>\<open>loadPlaces\<close> of booze.js): \<open>seen\<close> is the \<^verbatim>\<open>Set\<close>, \<open>out\<close> the
  array that \<^verbatim>\<open>push\<close> extends.
\<close>

fun dedupe_loop :: "('a \<Rightarrow> 'k) \<Rightarrow> 'k set \<Rightarrow> 'a list \<Rightarrow> 'a list \<Rightarrow> 'a list" where
  "dedupe_loop key seen out [] = out"
| "dedupe_loop key seen out (item # items) =
     (if key item \<notin> seen
      then dedupe_loop key (insert (key item) seen) (out @ [item]) items
      else dedupe_loop key seen out items)"

definition dedupeById :: "place list \<Rightarrow> place list" where
  "dedupeById items = dedupe_loop pid {} [] items"


section \<open>Strings\<close>

text \<open>
  A string is the list of the bytes of its UTF-8 encoding: a character of ASCII is one byte
  below 128, every other character a sequence of bytes from 128 on.  The string literals
  of the programs are ASCII.
\<close>

definition is_ascii :: "char \<Rightarrow> bool" where
  "is_ascii c \<longleftrightarrow> \<not> digit7 c"

definition upper_letters :: string where
  "upper_letters = ''ABCDEFGHIJKLMNOPQRSTUVWXYZ''"

definition lower_letters :: string where
  "lower_letters = ''abcdefghijklmnopqrstuvwxyz''"

definition lower_char :: "char \<Rightarrow> char" where
  "lower_char c = (case map_of (zip upper_letters lower_letters) c of Some l \<Rightarrow> l | None \<Rightarrow> c)"

text \<open>
  What \<^verbatim>\<open>toLowerCase\<close> makes of a string with a character beyond ASCII is fixed by
  the Unicode tables of the host, which are no part of the programs: \<open>unicode_lower\<close> is
  some function of strings, about which nothing is known.
\<close>

definition unicode_lower :: "string \<Rightarrow> string" where
  "unicode_lower = (SOME f. True)"

text \<open>
  \<^verbatim>\<open>String.prototype.toLowerCase\<close>: in a string of ASCII the letters \<^verbatim>\<open>A\<close> to
  \<^verbatim>\<open>Z\<close> become \<^verbatim>\<open>a\<close> to \<^verbatim>\<open>z\<close> and nothing else changes.
\<close>

definition toLowerCase :: "string \<Rightarrow> string" where
  "toLowerCase s = (if list_all is_ascii s then map lower_char s else unicode_lower s)"

text \<open>
  The white space and the line terminators of ECMAScript, which \<^verbatim>\<open>trim\<close> strips:
  U+0009 to U+000D, U+0020, U+00A0, U+1680, U+2000 to U+200A, U+2028, U+2029, U+202F,
  U+205F, U+3000 and U+FEFF, each in UTF-8.
\<close>

definition white_space :: "string list" where
  "white_space =
     [[CHR 0x09], [CHR 0x0A], [CHR 0x0B], [CHR 0x0C], [CHR 0x0D], [CHR 0x20],
      [CHR 0xC2, CHR 0xA0], [CHR 0xE1, CHR 0x9A, CHR 0x80],
      [CHR 0xE2, CHR 0x80, CHR 0x80], [CHR 0xE2, CHR 0x80, CHR 0x81],
      [CHR 0xE2, CHR 0x80, CHR 0x82], [CHR 0xE2, CHR 0x80, CHR 0x83],
      [CHR 0xE2, CHR 0x80, CHR 0x84], [CHR 0xE2, CHR 0x80, CHR 0x85],
      [CHR 0xE2, CHR 0x80, CHR 0x86], [CHR 0xE2, CHR 0x80, CHR 0x87],
      [CHR 0xE2, CHR 0x80, CHR 0x88], [CHR 0xE2, CHR 0x80, CHR 0x89],
      [CHR 0xE2, CHR 0x80, CHR 0x8A], [CHR 0xE2, CHR 0x80, CHR 0xA8],
      [CHR 0xE2, CHR 0x80, CHR 0xA9], [CHR 0xE2, CHR 0x80, CHR 0xAF],
      [CHR 0xE2, CHR 0x81, CHR 0x9F], [CHR 0xE3, CHR 0x80, CHR 0x80],
      [CHR 0xEF, CHR 0xBB, CHR 0xBF]]"

text \<open>Stripping, from the start of a string, every leading occurrence of one of the given words.\<close>

function strip_leading :: "string list \<Rightarrow> string \<Rightarrow> string" where
  "strip_leading ws s =
     (case List.find (\<lambda>w. w \<noteq> [] \<and> prefix w s) ws of
        None \<Rightarrow> s
      | Some w \<Rightarrow> strip_leading ws (drop (length w) s))"
  by pat_completeness auto
termination
  by (relation "measure (\<lambda>(ws, s). length s)") (auto simp: find_Some_iff prefix_def)

declare strip_leading.simps [simp del]

text \<open>\<^verbatim>\<open>String.prototype.trim\<close>: the white space is stripped from both ends.\<close>

definition trim :: "string \<Rightarrow> string" where
  "trim s = rev (strip_leading (map rev white_space) (rev (strip_leading white_space s)))"

text \<open>A string that neither starts nor ends with white space.\<close>

definition trimmed :: "string \<Rightarrow> bool" where
  "trimmed s \<longleftrightarrow>
     \<not> list_ex (\<lambda>w. prefix w s) white_space \<and> \<not> list_ex (\<lambda>w. suffix w s) white_space"

text \<open>\<^verbatim>\<open>s.split(d)\<close> for a separator of one character.\<close>

fun split_on :: "char \<Rightarrow> string \<Rightarrow> string list" where
  "split_on d [] = [[]]"
| "split_on d (c # cs) =
     (if c = d then [] # split_on d cs
      else (case split_on d cs of [] \<Rightarrow> [[c]] | w # ws \<Rightarrow> (c # w) # ws))"

text \<open>
  \<^verbatim>\<open>x || d\<close> for a tag value \<open>x\<close>: \<^verbatim>\<open>undefined\<close> and the empty string are
  falsy.
\<close>

definition or_else :: "string option \<Rightarrow> string \<Rightarrow> string" where
  "or_else x d = (case x of None \<Rightarrow> d | Some v \<Rightarrow> if v = [] then d else v)"

text \<open>
  \<^verbatim>\<open>Array.from(new Set(xs))\<close>: the distinct values in the order in which they are
  first seen.
\<close>

definition distinct_first :: "'a list \<Rightarrow> 'a list" where
  "distinct_first xs = dedupe_loop (\<lambda>x. x) {} [] xs"

text \<open>
  \<^verbatim>\<open>xs.sort((a, b) => a.localeCompare(b))\<close>.  The collation \<open>lc\<close> of the host is a
  parameter; the sort is stable.
\<close>

fun insert_cmp :: "('a \<Rightarrow> 'a \<Rightarrow> int) \<Rightarrow> 'a \<Rightarrow> 'a list \<Rightarrow> 'a list" where
  "insert_cmp lc x [] = [x]"
| "insert_cmp lc x (y # ys) = (if lc x y \<le> 0 then x # y # ys else y # insert_cmp lc x ys)"

definition sort_cmp :: "('a \<Rightarrow> 'a \<Rightarrow> int) \<Rightarrow> 'a list \<Rightarrow> 'a list" where
  "sort_cmp lc xs = foldr (insert_cmp lc) xs []"

text \<open>
  \<^verbatim>\<open>RegExp.prototype.test\<close> for a pattern without anchors: the pattern, a predicate
  on the character before the position and the rest of the string, matches at some position.
\<close>

fun regex_test :: "(char option \<Rightarrow> string \<Rightarrow> bool) \<Rightarrow> char option \<Rightarrow> string \<Rightarrow> bool" where
  "regex_test m prev [] = m prev []"
| "regex_test m prev (c # cs) = (m prev (c # cs) \<or> regex_test m (Some c) cs)"

text \<open>The class \<^verbatim>\<open>\w\<close>: the letters and digits of ASCII and the underscore.\<close>

definition is_word_char :: "char \<Rightarrow> bool" where
  "is_word_char c \<longleftrightarrow> c \<in> set (upper_letters @ lower_letters @ ''0123456789_'')"

text \<open>\<^verbatim>\<open>\b\<close>: exactly one of the two neighbours of the position is a word character.\<close>

definition word_boundary :: "char option \<Rightarrow> string \<Rightarrow> bool" where
  "word_boundary prev rest \<longleftrightarrow>
     (case prev of None \<Rightarrow> False | Some c \<Rightarrow> is_word_char c) \<noteq>
     (case rest of [] \<Rightarrow> False | c # _ \<Rightarrow> is_word_char c)"

definition lit :: "string \<Rightarrow> char option \<Rightarrow> string \<Rightarrow> bool" where
  "lit w prev rest \<longleftrightarrow> prefix w rest"

text \<open>A literal between two \<^verbatim>\<open>\b\<close>, and a literal followed by \<^verbatim>\<open>\b\<close>.\<close>

definition word_lit :: "string \<Rightarrow> char option \<Rightarrow> string \<Rightarrow> bool" where
  "word_lit w prev rest \<longleftrightarrow>
     word_boundary prev rest \<and> prefix w rest \<and>
     word_boundary (if w = [] then prev else Some (last w)) (drop (length w) rest)"

definition lit_end :: "string \<Rightarrow> char option \<Rightarrow> string \<Rightarrow> bool" where
  "lit_end w prev rest \<longleftrightarrow>
     prefix w rest \<and> word_boundary (if w = [] then prev else Some (last w)) (drop (length w) rest)"

definition js_includes :: "string \<Rightarrow> string \<Rightarrow> bool" where
  "js_includes s w = regex_test (lit w) None s"


section \<open>Category extraction\<close>

text \<open>\<^verbatim>\<open>extractCuisines\<close> of app.js and of the food program for US cities.\<close>

definition extractCuisines :: "tagmap \<Rightarrow> string list" where
  "extractCuisines tgs =
     filter (\<lambda>x. x \<noteq> [])
       (map (\<lambda>x. toLowerCase (trim x)) (split_on CHR '';'' (or_else (tgs ''cuisine'') [])))"

definition nightlife :: "string list" where
  "nightlife = [''bar'', ''pub'', ''biergarten'', ''nightclub'']"

definition is_yes :: "string \<Rightarrow> bool" where
  "is_yes v \<longleftrightarrow> toLowerCase v = ''yes''"

text \<open>
  The pattern
  \<^verbatim>\<open>/(\bbar\b|\bpub\b|tap|brew|ale|lager|ipa\b|wine|spirits|cocktail|whiskey|tavern|saloon|lounge|distill|cider|mead)/i\<close>
  on the lower-cased name.  With the flag \<^verbatim>\<open>i\<close> a letter of the pattern matches
  its upper-case letter of ASCII as well, and no character beyond ASCII.
\<close>

definition nameSuggestsAlcohol :: "string \<Rightarrow> bool" where
  "nameSuggestsAlcohol nameLower =
     regex_test (\<lambda>prev rest.
        word_lit ''bar'' prev rest \<or> word_lit ''pub'' prev rest \<or> lit_end ''ipa'' prev rest \<or>
        list_ex (\<lambda>w. lit w prev rest)
          [''tap'', ''brew'', ''ale'', ''lager'', ''wine'', ''spirits'', ''cocktail'', ''whiskey'',
           ''tavern'', ''saloon'', ''lounge'', ''distill'', ''cider'', ''mead''])
       None (map lower_char nameLower)"

text \<open>The pattern \<^verbatim>\<open>/tap ?room|brewery|brewing/\<close>.\<close>

definition nameSuggestsBrewery :: "string \<Rightarrow> bool" where
  "nameSuggestsBrewery nameLower =
     regex_test (\<lambda>prev rest.
        list_ex (\<lambda>w. lit w prev rest) [''taproom'', ''tap room'', ''brewery'', ''brewing''])
       None nameLower"

text \<open>\<^verbatim>\<open>collectTypes\<close> of booze.js.\<close>

definition collectTypes :: "tagmap \<Rightarrow> string list" where
  "collectTypes tgs =
     (let amenity = tgs ''amenity'';
          nameLower = toLowerCase (or_else (tgs ''name'') []);
          t1 = (case amenity of None \<Rightarrow> [] | Some a \<Rightarrow> if a \<in> set nightlife then [a] else []);
          alcoholYes = is_yes (or_else (tgs ''alcohol'') (or_else (tgs ''serves:alcohol'') []));
          drinkYes = list_ex (\<lambda>k. is_yes (or_else (tgs k) []))
             [''drink:beer'', ''drink:wine'', ''drink:spirits'', ''drink:cocktails'', ''drink:liquor''];
          t2 = (case amenity of None \<Rightarrow> [] | Some a \<Rightarrow>
                  if (a = ''restaurant'' \<or> a = ''cafe'') \<and>
                     (alcoholYes \<or> drinkYes \<or> nameSuggestsAlcohol nameLower)
                  then [a] else []);
          craft = toLowerCase (or_else (tgs ''craft'') []);
          breweryYes = is_yes (or_else (tgs ''brewery'')
             (or_else (tgs ''microbrewery'') (or_else (tgs ''craft_beer'') [])));
          taproomYes = is_yes (or_else (tgs ''taproom'') (or_else (tgs ''tap_room'') []));
          brewpub = js_includes (toLowerCase (or_else (tgs ''brewery:type'') (or_else (tgs ''brewery'') [])))
             ''brewpub'';
          t3 = (if craft = ''brewery'' \<or> breweryYes \<or> taproomYes \<or> brewpub \<or>
                   nameSuggestsBrewery nameLower
                then [''brewery''] else [])
      in distinct_first (t1 @ t2 @ t3))"

text \<open>
  \<^verbatim>\<open>collectTypes\<close> of the booze program for Lafayette, which looks at the tags only.
\<close>

definition collectTypes_lafayette :: "tagmap \<Rightarrow> string list" where
  "collectTypes_lafayette tgs =
     (let amenity = tgs ''amenity'';
          t1 = (case amenity of None \<Rightarrow> [] | Some a \<Rightarrow> if a \<in> set nightlife then [a] else []);
          alcoholYes = is_yes (or_else (tgs ''alcohol'') (or_else (tgs ''serves:alcohol'') []));
          drinkYes = list_ex (\<lambda>k. is_yes (or_else (tgs k) []))
             [''drink:beer'', ''drink:wine'', ''drink:spirits'', ''drink:cocktails'', ''drink:liquor''];
          t2 = (case amenity of None \<Rightarrow> [] | Some a \<Rightarrow>
                  if (a = ''restaurant'' \<or> a = ''cafe'') \<and> (alcoholYes \<or> drinkYes)
                  then [a] else []);
          t3 = (if toLowerCase (or_else (tgs ''craft'') []) = ''brewery'' \<or>
                   is_yes (or_else (tgs ''brewery'')
                     (or_else (tgs ''microbrewery'') (or_else (tgs ''craft_beer'') [])))
                then [''brewery''] else [])
      in distinct_first (t1 @ t2 @ t3))"


section \<open>Normalisation of fetched elements\<close>

text \<open>
  An element of the fetched JSON.  Its id is kept as the string that the template literal
  of \<^verbatim>\<open>toPlace\<close> prints.
\<close>

record element =
  el_type :: string
  el_id :: string
  el_lat :: "real option"
  el_lon :: "real option"
  el_center :: "(real option \<times> real option) option"
  el_tags :: "tagmap option"

text \<open>The function mapped over \<^verbatim>\<open>elements\<close> in \<^verbatim>\<open>fetchPlaces\<close> and \<^verbatim>\<open>loadPlaces\<close>.\<close>

definition normalizeElement :: "element \<Rightarrow> element" where
  "normalizeElement el =
     (if el_type el = ''node'' then el
      else (let center = (case el_center el of None \<Rightarrow> (None, None) | Some c \<Rightarrow> c)
            in \<lparr>el_type = el_type el, el_id = el_id el, el_lat = fst center, el_lon = snd center,
                el_center = None,
                el_tags = Some (case el_tags el of None \<Rightarrow> Map.empty | Some t \<Rightarrow> t)\<rparr>))"

text \<open>\<^verbatim>\<open>toPlace\<close>, with the function that derives the categories as a parameter.\<close>

definition toPlace :: "(tagmap \<Rightarrow> string list) \<Rightarrow> element \<Rightarrow> place" where
  "toPlace derive obj =
     (let tgs = (case el_tags obj of None \<Rightarrow> Map.empty | Some t \<Rightarrow> t)
      in \<lparr>pid = el_type obj @ ''/'' @ el_id obj,
          pname = or_else (tgs ''name'') ''Unnamed'',
          categories = derive tgs,
          tags = tgs,
          plat = el_lat obj,
          plon = el_lon obj,
          website = or_else (tgs ''website'') (or_else (tgs ''url'') []),
          phone = or_else (tgs ''phone'') (or_else (tgs ''contact:phone'') []),
          street = or_else (tgs ''addr:street'') [],
          city = or_else (tgs ''addr:city'') []\<rparr>)"

text \<open>What \<^verbatim>\<open>fetchPlaces\<close> (app.js) does with the elements of the accepted response.\<close>

definition app_places :: "element list \<Rightarrow> place list" where
  "app_places elements =
     dedupeById
       (map (toPlace extractCuisines)
         (filter (\<lambda>n. case el_tags n of None \<Rightarrow> False
                    | Some t \<Rightarrow> (case t ''amenity'' of None \<Rightarrow> False
                        | Some a \<Rightarrow> a \<noteq> [] \<and> a \<in> set [''restaurant'', ''fast_food'', ''cafe'']))
           (map normalizeElement elements)))"

text \<open>What \<^verbatim>\<open>loadPlaces\<close> (booze.js) does with the elements that \<^verbatim>\<open>fetchOverpass\<close> returns.\<close>

definition booze_places :: "element list \<Rightarrow> place list" where
  "booze_places elements = dedupeById (map (toPlace collectTypes) (map normalizeElement elements))"

text \<open>
  What \<^verbatim>\<open>loadPlaces\<close> of the booze program for Lafayette does with the elements: a
  place without a type is dropped before the deduplication.
\<close>

definition lafayette_places :: "element list \<Rightarrow> place list" where
  "lafayette_places elements =
     dedupeById
       (filter (\<lambda>p. length (categories p) > 0)
         (map (toPlace collectTypes_lafayette) (map normalizeElement elements)))"


section \<open>The state of a program\<close>

datatype jserror =
    TypeError
  | OverpassError nat string
  | Thrown string
  | OverpassFailed
  | NoElements

text \<open>
  What the callback given to \<^verbatim>\<open>setTimeout\<close> has captured: the programs that decode
  the winner from the rotation capture \<^verbatim>\<open>finalRotation\<close>, \<^verbatim>\<open>sliceAngle\<close> and
  \<^verbatim>\<open>n\<close>; the programs that choose the winner first capture \<^verbatim>\<open>chosen\<close>.
\<close>

datatype timer =
    Decode real real real
  | Reveal "place option"

text \<open>
  The module variables of a program, the two checkboxes of the food programs, the pending
  timer, the content of the result card, and the exceptions that no handler has caught.
  \<open>excluded\<close> is \<^verbatim>\<open>excludedCuisines\<close> or \<^verbatim>\<open>excludedTypes\<close>,
  \<open>uniqueCategories\<close> is \<^verbatim>\<open>uniqueCuisines\<close> or \<^verbatim>\<open>uniqueTypes\<close>.  The drawing
  of the wheel, the status line and the disabled flag of the spin button are not part of
  the state; the guards of \<^verbatim>\<open>spinWheel\<close> itself are.
\<close>

record state =
  allPlaces :: "place list"
  excluded :: "string set"
  uniqueCategories :: "string list"
  includeFastFood :: bool
  includeCafe :: bool
  currentFiltered :: "place list"
  isSpinning :: bool
  accumulatedRotation :: real
  pending :: "timer option"
  resultCard :: "place option"
  uncaught :: "jserror list"

definition initial_state :: state where
  "initial_state =
     \<lparr>allPlaces = [], excluded = {}, uniqueCategories = [], includeFastFood = True,
      includeCafe = True, currentFiltered = [], isSpinning = False, accumulatedRotation = 0,
      pending = None, resultCard = None, uncaught = []\<rparr>"


section \<open>Filters\<close>

text \<open>\<^verbatim>\<open>collectUniqueCuisines\<close> (app.js).\<close>

definition collectUniqueCuisines :: "(string \<Rightarrow> string \<Rightarrow> int) \<Rightarrow> state \<Rightarrow> state" where
  "collectUniqueCuisines lc s =
     s\<lparr>uniqueCategories := sort_cmp lc (distinct_first (concat (map categories (allPlaces s))))\<rparr>"

text \<open>The predicate of the \<^verbatim>\<open>filter\<close> in \<^verbatim>\<open>applyFilters\<close> of app.js.\<close>

definition app_keeps :: "state \<Rightarrow> place \<Rightarrow> bool" where
  "app_keeps s p =
     (let allowed = filter (\<lambda>c. c \<notin> excluded s) (uniqueCategories s);
          amenity = tags p ''amenity''
      in if amenity = Some ''fast_food'' \<and> \<not> includeFastFood s then False
         else if amenity = Some ''cafe'' \<and> \<not> includeCafe s then False
         else if length (categories p) > 0 then list_ex (\<lambda>c. c \<in> set allowed) (categories p)
         else True)"

definition app_applyFilters :: "state \<Rightarrow> state" where
  "app_applyFilters s = s\<lparr>currentFiltered := filter (app_keeps s) (allPlaces s)\<rparr>"

text \<open>The test on the tags that \<^verbatim>\<open>buildTypesList\<close> and \<^verbatim>\<open>applyFilters\<close> of booze.js share.\<close>

definition tagged_brewery :: "tagmap \<Rightarrow> bool" where
  "tagged_brewery tgs \<longleftrightarrow>
     tgs ''craft'' = Some ''brewery'' \<or>
     is_yes (or_else (tgs ''brewery'') (or_else (tgs ''microbrewery'') []))"

definition tagged_nightlife :: "tagmap \<Rightarrow> bool" where
  "tagged_nightlife tgs \<longleftrightarrow> (case tgs ''amenity'' of None \<Rightarrow> False | Some a \<Rightarrow> a \<in> set nightlife)"

text \<open>\<^verbatim>\<open>buildTypesList\<close> (booze.js).\<close>

definition buildTypesList :: "(string \<Rightarrow> string \<Rightarrow> int) \<Rightarrow> state \<Rightarrow> state" where
  "buildTypesList lc s =
     (let s0 = distinct_first (concat (map categories (allPlaces s)));
          s1 = (if length s0 = 0
                then distinct_first (concat (map (\<lambda>p.
                       (case tags p ''amenity'' of None \<Rightarrow> []
                        | Some a \<Rightarrow> if a \<in> set nightlife then [a] else []) @
                       (if tagged_brewery (tags p) then [''brewery''] else [])) (allPlaces s)))
                else s0)
      in s\<lparr>uniqueCategories := sort_cmp lc s1\<rparr>)"

text \<open>The predicate of the \<^verbatim>\<open>filter\<close> in \<^verbatim>\<open>applyFilters\<close> of booze.js.\<close>

definition booze_keeps :: "state \<Rightarrow> place \<Rightarrow> bool" where
  "booze_keeps s p =
     (let allowed = filter (\<lambda>t. t \<notin> excluded s) (uniqueCategories s)
      in if length (uniqueCategories s) = 0
         then tagged_nightlife (tags p) \<or> tagged_brewery (tags p)
         else list_ex (\<lambda>t. t \<in> set allowed) (categories p))"

definition booze_applyFilters :: "state \<Rightarrow> state" where
  "booze_applyFilters s = s\<lparr>currentFiltered := filter (booze_keeps s) (allPlaces s)\<rparr>"


section \<open>The wheel\<close>

definition MAX_VISUAL_SLICES :: real where
  "MAX_VISUAL_SLICES = 200"

text \<open>
  \<^verbatim>\<open>showResult\<close>: with \<^verbatim>\<open>undefined\<close> for the place, reading \<^verbatim>\<open>place.street\<close>
  throws a \<^verbatim>\<open>TypeError\<close>, which nothing catches.
\<close>

definition showResult :: "place option \<Rightarrow> state \<Rightarrow> state" where
  "showResult chosen s =
     (case chosen of None \<Rightarrow> s\<lparr>uncaught := uncaught s @ [TypeError]\<rparr>
      | Some p \<Rightarrow> s\<lparr>resultCard := Some p\<rparr>)"

text \<open>
  \<^verbatim>\<open>spinWheel\<close> of app.js, up to the call of \<^verbatim>\<open>setTimeout\<close>; \<open>u1\<close> and \<open>u2\<close> are
  its two calls of \<^verbatim>\<open>Math.random()\<close>, in the order of the source.
\<close>

definition app_spinWheel :: "real \<Rightarrow> real \<Rightarrow> state \<Rightarrow> state" where
  "app_spinWheel u1 u2 s =
     (if isSpinning s then s
      else if length (currentFiltered s) = 0 then s
      else (let n = real (length (currentFiltered s));
                sliceAngle = 360 / n;
                extraSpins = 4 + js_floor (u1 * 4);
                randomPart = u2 * 360;
                finalRotation = accumulatedRotation s + extraSpins * 360 + randomPart
            in s\<lparr>isSpinning := True, resultCard := None, accumulatedRotation := finalRotation,
                 pending := Some (Decode finalRotation sliceAngle n)\<rparr>))"

text \<open>The index that the callback of app.js computes.\<close>

definition decodeIndex :: "real \<Rightarrow> real \<Rightarrow> real \<Rightarrow> real" where
  "decodeIndex finalRotation sliceAngle n =
     (let normalized = normalize360 (- finalRotation + 90)
      in js_rem (js_floor (normalized / sliceAngle)) n)"

text \<open>
  \<^verbatim>\<open>spinWheel\<close> of booze.js, up to the call of \<^verbatim>\<open>setTimeout\<close>; \<open>u1\<close>, \<open>u2\<close> and
  \<open>u3\<close> are its three calls of \<^verbatim>\<open>Math.random()\<close>, in the order of the source.  The
  cap on the number of slices drawn is the parameter \<open>cap\<close> of the computation, which
  the program sets to \<^verbatim>\<open>MAX_VISUAL_SLICES\<close>.
\<close>

definition chosenIndex :: "real \<Rightarrow> real \<Rightarrow> real" where
  "chosenIndex n u1 = js_floor (u1 * n)"

definition booze_finalRotation :: "real \<Rightarrow> real \<Rightarrow> real \<Rightarrow> real \<Rightarrow> real \<Rightarrow> real \<Rightarrow> real" where
  "booze_finalRotation cap acc n u1 u2 u3 =
     (let visualCount = min n cap;
          sliceAngle = 360 / visualCount;
          visualIndex = js_floor ((chosenIndex n u1 * visualCount) / n);
          targetNormalized = visualIndex * sliceAngle + u2 * sliceAngle;
          currentNormalized = normalize360 (- acc + 90);
          offset = normalize360 (currentNormalized - targetNormalized);
          extraSpins = 4 + js_floor (u3 * 4)
      in acc + extraSpins * 360 + offset)"

definition spinWheel_with :: "real \<Rightarrow> real \<Rightarrow> real \<Rightarrow> real \<Rightarrow> state \<Rightarrow> state" where
  "spinWheel_with cap u1 u2 u3 s =
     (if isSpinning s then s
      else if length (currentFiltered s) = 0 then s
      else (let n = real (length (currentFiltered s));
                chosen = js_index (currentFiltered s) (chosenIndex n u1);
                finalRotation = booze_finalRotation cap (accumulatedRotation s) n u1 u2 u3
            in s\<lparr>isSpinning := True, resultCard := None, accumulatedRotation := finalRotation,
                 pending := Some (Reveal chosen)\<rparr>))"

definition booze_spinWheel :: "real \<Rightarrow> real \<Rightarrow> real \<Rightarrow> state \<Rightarrow> state" where
  "booze_spinWheel u1 u2 u3 s = spinWheel_with MAX_VISUAL_SLICES u1 u2 u3 s"

text \<open>The callback given to \<^verbatim>\<open>setTimeout\<close>, run when the timer fires.\<close>

definition timeout :: "state \<Rightarrow> state" where
  "timeout s =
     (case pending s of
        None \<Rightarrow> s
      | Some (Decode finalRotation sliceAngle n) \<Rightarrow>
          showResult (js_index (currentFiltered s) (decodeIndex finalRotation sliceAngle n))
            (s\<lparr>isSpinning := False, pending := None\<rparr>)
      | Some (Reveal chosen) \<Rightarrow> showResult chosen (s\<lparr>isSpinning := False, pending := None\<rparr>))"


section \<open>Events\<close>

text \<open>
  Everything that changes the state of a program: a click on the spin button with the
  random draws of that spin, the timer of a spin, a change of a category checkbox
  (checked means excluded), the two buttons of the category menu, the two checkboxes of
  the food programs, and \<^verbatim>\<open>initialize\<close> with the outcome of its fetch (start, reload
  and, in the programs for US cities, the choice of a city).
\<close>

datatype event =
    SpinClick real real real
  | TimerFires
  | CategoryChange string bool
  | SelectNone
  | SelectAll
  | FastFoodChange bool
  | CafeChange bool
  | Initialize "jserror + place list"

definition app_initialize :: "(string \<Rightarrow> string \<Rightarrow> int) \<Rightarrow> jserror + place list \<Rightarrow> state \<Rightarrow> state" where
  "app_initialize lc outcome s =
     (case outcome of
        Inl err \<Rightarrow> s\<lparr>resultCard := None\<rparr>
      | Inr places \<Rightarrow>
          app_applyFilters
            ((collectUniqueCuisines lc (s\<lparr>resultCard := None, allPlaces := places\<rparr>))\<lparr>excluded := {}\<rparr>))"

definition booze_initialize :: "(string \<Rightarrow> string \<Rightarrow> int) \<Rightarrow> jserror + place list \<Rightarrow> state \<Rightarrow> state" where
  "booze_initialize lc outcome s =
     (case outcome of
        Inl err \<Rightarrow> s\<lparr>resultCard := None\<rparr>
      | Inr places \<Rightarrow>
          booze_applyFilters
            ((buildTypesList lc (s\<lparr>resultCard := None, allPlaces := places\<rparr>))\<lparr>excluded := {}\<rparr>))"

text \<open>The handlers of app.js.\<close>

fun app_step :: "(string \<Rightarrow> string \<Rightarrow> int) \<Rightarrow> state \<Rightarrow> event \<Rightarrow> state" where
  "app_step lc s (SpinClick u1 u2 u3) = app_spinWheel u1 u2 s"
| "app_step lc s TimerFires = timeout s"
| "app_step lc s (CategoryChange c checked) =
     app_applyFilters (s\<lparr>excluded := (if checked then insert c (excluded s) else excluded s - {c})\<rparr>)"
| "app_step lc s SelectNone = app_applyFilters (s\<lparr>excluded := {}\<rparr>)"
| "app_step lc s SelectAll = app_applyFilters (s\<lparr>excluded := set (uniqueCategories s)\<rparr>)"
| "app_step lc s (FastFoodChange b) = app_applyFilters (s\<lparr>includeFastFood := b\<rparr>)"
| "app_step lc s (CafeChange b) = app_applyFilters (s\<lparr>includeCafe := b\<rparr>)"
| "app_step lc s (Initialize outcome) = app_initialize lc outcome s"

text \<open>The handlers of booze.js, which has no checkbox for fast food or cafes.\<close>

fun booze_step :: "(string \<Rightarrow> string \<Rightarrow> int) \<Rightarrow> state \<Rightarrow> event \<Rightarrow> state" where
  "booze_step lc s (SpinClick u1 u2 u3) = booze_spinWheel u1 u2 u3 s"
| "booze_step lc s TimerFires = timeout s"
| "booze_step lc s (CategoryChange c checked) =
     booze_applyFilters (s\<lparr>excluded := (if checked then insert c (excluded s) else excluded s - {c})\<rparr>)"
| "booze_step lc s SelectNone = booze_applyFilters (s\<lparr>excluded := {}\<rparr>)"
| "booze_step lc s SelectAll = booze_applyFilters (s\<lparr>excluded := set (uniqueCategories s)\<rparr>)"
| "booze_step lc s (FastFoodChange b) = s"
| "booze_step lc s (CafeChange b) = s"
| "booze_step lc s (Initialize outcome) = booze_initialize lc outcome s"

text \<open>A session: the events handled one after the other.\<close>

definition app_run :: "(string \<Rightarrow> string \<Rightarrow> int) \<Rightarrow> state \<Rightarrow> event list \<Rightarrow> state" where
  "app_run lc s es = foldl (app_step lc) s es"

definition booze_run :: "(string \<Rightarrow> string \<Rightarrow> int) \<Rightarrow> state \<Rightarrow> event list \<Rightarrow> state" where
  "booze_run lc s es = foldl (booze_step lc) s es"


section \<open>Fetching from the mirrors\<close>

text \<open>
  The body of a response as \<^verbatim>\<open>res.json()\<close> delivers it: a falsy value, or an object
  whose field \<^verbatim>\<open>elements\<close> is missing (or falsy), is something else than an array, or
  is an array.
\<close>

datatype elements_field = Missing | NotArray | Arr "element list"

datatype json = Falsy | Obj elements_field

datatype body = JsonRejects jserror | Parsed json

text \<open>
  The outcome of one \<^verbatim>\<open>fetch\<close>: the promise rejects, or it resolves with a status and
  a body.  \<^verbatim>\<open>res.ok\<close> holds for the statuses 200 to 299.
\<close>

datatype response = FetchRejects jserror | Http nat body

definition res_ok :: "nat \<Rightarrow> bool" where
  "res_ok status \<longleftrightarrow> 200 \<le> status \<and> status \<le> 299"

text \<open>
  One of the two loops of \<^verbatim>\<open>fetchOverpass\<close> (booze.js): \<open>respond i\<close> is the
  response to the attempt \<open>i\<close> of the loop, made at the mirror \<open>endpoints[i]\<close>;
  \<open>lastErr\<close> is the variable of that name.  The result is the value returned, or
  \<open>lastErr\<close> when the loop ends.  The wait between two attempts is not modelled, and
  a city is selected (\<^verbatim>\<open>initialize\<close> returns before the fetch otherwise), so that
  building the query does not throw.
\<close>

fun overpass_pass ::
  "(nat \<Rightarrow> response) \<Rightarrow> nat \<Rightarrow> string list \<Rightarrow> jserror option \<Rightarrow> jserror option + element list" where
  "overpass_pass respond i [] lastErr = Inl lastErr"
| "overpass_pass respond i (url # urls) lastErr =
     (case respond i of
        FetchRejects e \<Rightarrow> overpass_pass respond (Suc i) urls (Some e)
      | Http status b \<Rightarrow>
          if \<not> res_ok status then overpass_pass respond (Suc i) urls (Some (OverpassError status url))
          else (case b of
                  JsonRejects e \<Rightarrow> overpass_pass respond (Suc i) urls (Some e)
                | Parsed j \<Rightarrow>
                    (case j of
                       Obj (Arr els) \<Rightarrow>
                         if length els > 0 then Inr els
                         else overpass_pass respond (Suc i) urls lastErr
                     | _ \<Rightarrow> overpass_pass respond (Suc i) urls lastErr)))"

text \<open>
  \<^verbatim>\<open>fetchOverpass\<close> (booze.js): \<open>endpoints\<close> is the shuffled list of mirrors,
  \<open>broad\<close> and \<open>narrow\<close> give the responses to the attempts with the broad query and
  with the bars-only query.
\<close>

definition fetchOverpass ::
  "string list \<Rightarrow> (nat \<Rightarrow> response) \<Rightarrow> (nat \<Rightarrow> response) \<Rightarrow> jserror + element list" where
  "fetchOverpass endpoints broad narrow =
     (case overpass_pass broad 0 endpoints None of
        Inr els \<Rightarrow> Inr els
      | Inl lastErr \<Rightarrow>
          (case overpass_pass narrow 0 endpoints lastErr of
             Inr els \<Rightarrow> Inr els
           | Inl lastErr' \<Rightarrow> Inl (case lastErr' of None \<Rightarrow> NoElements | Some e \<Rightarrow> e)))"

definition loadPlaces ::
  "string list \<Rightarrow> (nat \<Rightarrow> response) \<Rightarrow> (nat \<Rightarrow> response) \<Rightarrow> jserror + place list" where
  "loadPlaces endpoints broad narrow =
     (case fetchOverpass endpoints broad narrow of
        Inl e \<Rightarrow> Inl e
      | Inr els \<Rightarrow> Inr (booze_places els))"

text \<open>
  The loop of \<^verbatim>\<open>fetchPlaces\<close> (app.js): the result is the pair of the variables
  \<^verbatim>\<open>json\<close> (\<open>None\<close> for its initial \<^verbatim>\<open>null\<close>) and \<^verbatim>\<open>lastErr\<close> after
  the loop.
\<close>

fun places_loop ::
  "(nat \<Rightarrow> response) \<Rightarrow> nat \<Rightarrow> string list \<Rightarrow> jserror option \<Rightarrow> json option \<times> jserror option" where
  "places_loop respond i [] lastErr = (None, lastErr)"
| "places_loop respond i (url # urls) lastErr =
     (case respond i of
        FetchRejects e \<Rightarrow> places_loop respond (Suc i) urls (Some e)
      | Http status b \<Rightarrow>
          if \<not> res_ok status then places_loop respond (Suc i) urls (Some (OverpassError status url))
          else (case b of
                  JsonRejects e \<Rightarrow> places_loop respond (Suc i) urls (Some e)
                | Parsed j \<Rightarrow> (Some j, lastErr)))"

definition fetchPlaces :: "string list \<Rightarrow> (nat \<Rightarrow> response) \<Rightarrow> jserror + place list" where
  "fetchPlaces endpoints respond =
     (case places_loop respond 0 endpoints None of
        (Some (Obj Missing), lastErr) \<Rightarrow> Inr (app_places [])
      | (Some (Obj NotArray), lastErr) \<Rightarrow> Inl TypeError
      | (Some (Obj (Arr els)), lastErr) \<Rightarrow> Inr (app_places els)
      | (_, lastErr) \<Rightarrow> Inl (case lastErr of None \<Rightarrow> OverpassFailed | Some e \<Rightarrow> e))"

text \<open>
  The protocol as the specification words it, over the attempts in the order in which they
  are made: the value of the first response that is transport-successful and holds at
  least one element; without one, the last error observed.
\<close>

definition accepted :: "response \<Rightarrow> element list option" where
  "accepted r =
     (case r of
        Http status (Parsed (Obj (Arr els))) \<Rightarrow> if res_ok status \<and> els \<noteq> [] then Some els else None
      | _ \<Rightarrow> None)"

definition observed_error :: "string \<times> response \<Rightarrow> jserror option" where
  "observed_error a =
     (case a of
        (url, FetchRejects e) \<Rightarrow> Some e
      | (url, Http status b) \<Rightarrow>
          if \<not> res_ok status then Some (OverpassError status url)
          else (case b of JsonRejects e \<Rightarrow> Some e | Parsed j \<Rightarrow> None))"

definition attempts :: "string list \<Rightarrow> (nat \<Rightarrow> response) \<Rightarrow> (string \<times> response) list" where
  "attempts endpoints respond = zip endpoints (map respond [0..<length endpoints])"

definition spec_fetch :: "(string \<times> response) list \<Rightarrow> jserror + element list" where
  "spec_fetch as =
     (case List.map_filter (\<lambda>a. accepted (snd a)) as of
        els # _ \<Rightarrow> Inr els
      | [] \<Rightarrow> (case rev (List.map_filter observed_error as) of
                 e # _ \<Rightarrow> Inl e
               | [] \<Rightarrow> Inl NoElements))"


text \<open>
  The single pass of \<^verbatim>\<open>fetchPlaces\<close> in the same terms: the first response without a
  transport error decides, whatever it holds; a falsy body, or no such response at all,
  gives the last error observed before.
\<close>

definition last_error :: "jserror \<Rightarrow> (string \<times> response) list \<Rightarrow> jserror" where
  "last_error d as = (case rev (List.map_filter observed_error as) of e # _ \<Rightarrow> e | [] \<Rightarrow> d)"

definition spec_fetchPlaces :: "(string \<times> response) list \<Rightarrow> jserror + place list" where
  "spec_fetchPlaces as =
     (case dropWhile (\<lambda>a. observed_error a \<noteq> None) as of
        [] \<Rightarrow> Inl (last_error OverpassFailed as)
      | (url, r) # _ \<Rightarrow>
          (case r of
             Http status (Parsed (Obj (Arr els))) \<Rightarrow> Inr (app_places els)
           | Http status (Parsed (Obj Missing)) \<Rightarrow> Inr (app_places [])
           | Http status (Parsed (Obj NotArray)) \<Rightarrow> Inl TypeError
           | _ \<Rightarrow> Inl (last_error OverpassFailed (takeWhile (\<lambda>a. observed_error a \<noteq> None) as))))"


section \<open>Geometry\<close>

definition toRad :: "real \<Rightarrow> real" where
  "toRad d = d * pi / 180"

text \<open>\<^verbatim>\<open>Math.sqrt\<close>: \<^verbatim>\<open>NaN\<close> below zero.\<close>

definition js_sqrt :: "real \<Rightarrow> real option" where
  "js_sqrt x = (if x < 0 then None else Some (sqrt x))"

text \<open>\<^verbatim>\<open>Math.atan2(y, x)\<close>, signed zeros apart.\<close>

definition js_atan2 :: "real \<Rightarrow> real \<Rightarrow> real" where
  "js_atan2 y x =
     (if 0 < x then arctan (y / x)
      else if x < 0 \<and> 0 \<le> y then arctan (y / x) + pi
      else if x < 0 then arctan (y / x) - pi
      else if 0 < y then pi / 2
      else if y < 0 then - pi / 2
      else 0)"

definition haversineDistanceMeters :: "real \<Rightarrow> real \<Rightarrow> real \<Rightarrow> real \<Rightarrow> real option" where
  "haversineDistanceMeters lat1 lon1 lat2 lon2 =
     (let R = 6371000;
          dLat = toRad (lat2 - lat1);
          dLon = toRad (lon2 - lon1);
          a = sin (dLat / 2) * sin (dLat / 2) +
              cos (toRad lat1) * cos (toRad lat2) * sin (dLon / 2) * sin (dLon / 2)
      in case (js_sqrt a, js_sqrt (1 - a)) of
           (Some sa, Some sb) \<Rightarrow> Some (R * (2 * js_atan2 sa sb))
         | _ \<Rightarrow> None)"

text \<open>\<^verbatim>\<open>Math.max\<close> of a non-empty list of numbers: \<^verbatim>\<open>NaN\<close> as soon as one is.\<close>

fun js_max :: "real option list \<Rightarrow> real option" where
  "js_max [] = None"
| "js_max [x] = x"
| "js_max (x # xs) =
     (case (x, js_max xs) of (Some a, Some b) \<Rightarrow> Some (max a b) | _ \<Rightarrow> None)"

text \<open>
  The bounding box of the selected city after \<^verbatim>\<open>parseFloat\<close> of its four fields,
  \<open>None\<close> for a result that is not finite.
\<close>

record bbox =
  south :: "real option"
  west :: "real option"
  north :: "real option"
  east :: "real option"

text \<open>
  \<^verbatim>\<open>computeSearchRadiusMeters\<close>; the default \<open>dflt\<close> is 12000 in booze.js and 9000
  in the food program for US cities.  \<open>box\<close> is \<open>None\<close> for a falsy \<^verbatim>\<open>bbox\<close>.
\<close>

definition computeSearchRadiusMeters :: "real \<Rightarrow> bbox option \<Rightarrow> real option \<Rightarrow> real option \<Rightarrow> real" where
  "computeSearchRadiusMeters dflt box lat lon =
     (case (box, lat, lon) of
        (Some b, Some la, Some lo) \<Rightarrow>
          (case (south b, west b, north b, east b) of
             (Some s, Some w, Some n, Some e) \<Rightarrow>
               (let dNorth = haversineDistanceMeters la lo n lo;
                    dSouth = haversineDistanceMeters la lo s lo;
                    dEast = haversineDistanceMeters la lo la e;
                    dWest = haversineDistanceMeters la lo la w;
                    r = map_option (\<lambda>m. m * 1.05) (js_max [dNorth, dSouth, dEast, dWest]);
                    MIN_R = 2500;
                    MAX_R = 30000;
                    r' = (case r of None \<Rightarrow> dflt | Some v \<Rightarrow> if v \<le> 0 then dflt else v)
                in max MIN_R (min MAX_R r'))
           | _ \<Rightarrow> dflt)
      | _ \<Rightarrow> dflt)"

text \<open>
  The radius as the specification words it: the largest of the four distances from the
  centroid to the edges, padded by 5 percent, clamped into the interval from 2500 to 30000.
\<close>

definition edge_distance :: "real \<Rightarrow> real \<Rightarrow> real \<Rightarrow> real \<Rightarrow> real" where
  "edge_distance lat1 lon1 lat2 lon2 =
     (case haversineDistanceMeters lat1 lon1 lat2 lon2 of None \<Rightarrow> 0 | Some d \<Rightarrow> d)"

definition spec_searchRadius :: "real \<Rightarrow> real \<Rightarrow> real \<Rightarrow> real \<Rightarrow> real \<Rightarrow> real \<Rightarrow> real" where
  "spec_searchRadius s w n e la lo =
     max 2500 (min 30000
       (1.05 * Max {edge_distance la lo n lo, edge_distance la lo s lo,
                    edge_distance la lo la e, edge_distance la lo la w}))"


section \<open>The filtered list as the specification words it\<close>

text \<open>
  The venue list of the most recent successful fetch of a session: the list that the last
  \<^verbatim>\<open>initialize\<close> whose fetch succeeded was given, and \<open>ps\<close> when the session has
  none.
\<close>

fun last_fetch :: "place list \<Rightarrow> event list \<Rightarrow> place list" where
  "last_fetch ps [] = ps"
| "last_fetch ps (Initialize (Inr places) # es) = last_fetch places es"
| "last_fetch ps (e # es) = last_fetch ps es"

text \<open>
  The active filters: in the food programs the two toggles and the excluded cuisines,
  where a venue without a cuisine passes the latter; in the booze programs the excluded
  types.
\<close>

definition passes_food :: "state \<Rightarrow> place \<Rightarrow> bool" where
  "passes_food s p \<longleftrightarrow>
     \<not> (tags p ''amenity'' = Some ''fast_food'' \<and> \<not> includeFastFood s) \<and>
     \<not> (tags p ''amenity'' = Some ''cafe'' \<and> \<not> includeCafe s) \<and>
     (categories p = [] \<or> (\<exists>c\<in>set (categories p). c \<notin> excluded s))"

definition passes_booze :: "state \<Rightarrow> place \<Rightarrow> bool" where
  "passes_booze s p \<longleftrightarrow> (\<exists>t\<in>set (categories p). t \<notin> excluded s)"


section \<open>Draws and example inputs\<close>

text \<open>An event is well-formed when its random draws are values of \<^verbatim>\<open>Math.random()\<close>.\<close>

fun valid_event :: "event \<Rightarrow> bool" where
  "valid_event (SpinClick u1 u2 u3) = (unit_draw u1 \<and> unit_draw u2 \<and> unit_draw u3)"
| "valid_event _ = True"

text \<open>A venue with the given id, amenity, name and categories, for the examples.\<close>

definition venue :: "string \<Rightarrow> string \<Rightarrow> string \<Rightarrow> string list \<Rightarrow> place" where
  "venue i a nm cs =
     \<lparr>pid = i, pname = nm, categories = cs, tags = [''amenity'' \<mapsto> a, ''name'' \<mapsto> nm],
      plat = None, plon = None, website = [], phone = [], street = [], city = []\<rparr>"

text \<open>A node of the fetched JSON with the given id and tags.\<close>

definition node :: "string \<Rightarrow> tagmap \<Rightarrow> element" where
  "node i tgs =
     \<lparr>el_type = ''node'', el_id = i, el_lat = Some 40, el_lon = Some (- 86), el_center = None,
      el_tags = Some tgs\<rparr>"

text \<open>A collation that orders nothing, for the examples.\<close>

definition no_collation :: "string \<Rightarrow> string \<Rightarrow> int" where
  "no_collation a b = 0"

text \<open>A wheel at rest with three venues.\<close>

definition three_venues :: "place list" where
  "three_venues =
     [venue ''node/1'' ''restaurant'' ''Roma'' [''italian''],
      venue ''node/2'' ''fast_food'' ''Burger Stop'' [''burger''],
      venue ''node/3'' ''fast_food'' ''Taco Stop'' [''mexican'']]"

definition ready_state :: state where
  "ready_state =
     initial_state\<lparr>allPlaces := three_venues,
       uniqueCategories := [''burger'', ''italian'', ''mexican''],
       currentFiltered := three_venues\<rparr>"


text \<open>
  Two elements as a mirror returns them for the broad query of booze.js: a bar, and a
  restaurant without any sign that it serves alcohol.
\<close>

definition bar_node :: element where
  "bar_node = node ''5'' [''amenity'' \<mapsto> ''bar'', ''name'' \<mapsto> ''The Tap'']"

definition diner_node :: element where
  "diner_node = node ''6'' [''amenity'' \<mapsto> ''restaurant'', ''name'' \<mapsto> ''Diner'']"

text \<open>An element as a mirror returns it for the query of a food program.\<close>

definition pizza_node :: element where
  "pizza_node = node ''7'' [''amenity'' \<mapsto> ''restaurant'', ''name'' \<mapsto> ''Slice'', ''cuisine'' \<mapsto> ''pizza'']"

text \<open>Two venues of a food program: one with two cuisines, one with none.\<close>

definition two_foods :: "place list" where
  "two_foods =
     [venue ''node/1'' ''restaurant'' ''Roma'' [''italian'', ''pizza''],
      venue ''node/4'' ''restaurant'' ''Plain'' []]"


section \<open>Properties of deduplication\<close>

lemma dedupe_loop_out:
  "dedupe_loop key seen out items = out @ dedupe_loop key seen [] items"
proof (induction items arbitrary: seen out)
  case Nil
  show ?case by simp
next
  case (Cons item items)
  show ?case
  proof (cases "key item \<in> seen")
    case True
    then show ?thesis using Cons.IH [of seen out] by simp
  next
    case False
    then show ?thesis
      using Cons.IH [of "insert (key item) seen" "out @ [item]"]
        Cons.IH [of "insert (key item) seen" "[item]"]
      by simp
  qed
qed

lemma dedupe_loop_Cons:
  "dedupe_loop key seen [] (item # items) =
     (if key item \<in> seen then dedupe_loop key seen [] items
      else item # dedupe_loop key (insert (key item) seen) [] items)"
  using dedupe_loop_out [of key "insert (key item) seen" "[item]" items] by simp

lemma dedupe_loop_keys:
  "key ` set (dedupe_loop key seen [] items) = key ` set items - seen"
  by (induction items arbitrary: seen) (auto simp: dedupe_loop_Cons simp del: dedupe_loop.simps(2))

lemma dedupe_loop_distinct:
  "distinct (map key (dedupe_loop key seen [] items))"
proof (induction items arbitrary: seen)
  case Nil
  show ?case by simp
next
  case (Cons item items)
  have "key item \<notin> key ` set (dedupe_loop key (insert (key item) seen) [] items)"
    by (simp add: dedupe_loop_keys)
  with Cons show ?case by (simp add: dedupe_loop_Cons del: dedupe_loop.simps(2))
qed

lemma dedupe_loop_subseq:
  "subseq (dedupe_loop key seen [] items) items"
  by (induction items arbitrary: seen)
    (auto simp: dedupe_loop_Cons simp del: dedupe_loop.simps(2) intro: list_emb.intros)

lemma dedupe_loop_find_seen:
  "k \<in> seen \<Longrightarrow> find (\<lambda>p. key p = k) (dedupe_loop key seen [] items) = None"
proof -
  assume "k \<in> seen"
  then have "k \<notin> key ` set (dedupe_loop key seen [] items)"
    by (simp add: dedupe_loop_keys)
  then show ?thesis by (auto simp: find_None_iff)
qed

lemma dedupe_loop_find:
  "k \<notin> seen \<Longrightarrow>
     find (\<lambda>p. key p = k) (dedupe_loop key seen [] items) = find (\<lambda>p. key p = k) items"
proof (induction items arbitrary: seen)
  case Nil
  show ?case by simp
next
  case (Cons item items)
  show ?case
  proof (cases "key item = k")
    case True
    with Cons.prems show ?thesis by (simp add: dedupe_loop_Cons del: dedupe_loop.simps(2))
  next
    case False
    with Cons.prems have "k \<notin> insert (key item) seen" by auto
    with False Cons.IH [of seen] Cons.IH [of "insert (key item) seen"] Cons.prems
    show ?thesis by (simp add: dedupe_loop_Cons del: dedupe_loop.simps(2))
  qed
qed

lemma app_places_distinct: "distinct (map pid (app_places els))"
  unfolding app_places_def dedupeById_def by (simp add: dedupe_loop_distinct)

lemma booze_places_distinct: "distinct (map pid (booze_places els))"
  unfolding booze_places_def dedupeById_def by (simp add: dedupe_loop_distinct)

lemma lafayette_places_distinct: "distinct (map pid (lafayette_places els))"
  unfolding lafayette_places_def dedupeById_def by (simp add: dedupe_loop_distinct)

lemma fetchPlaces_distinct:
  assumes "fetchPlaces endpoints respond = Inr ps"
  shows "distinct (map pid ps)"
proof -
  from assms have "\<exists>els. ps = app_places els"
    unfolding fetchPlaces_def
    by (auto split: prod.splits option.splits json.splits elements_field.splits)
  then show ?thesis using app_places_distinct by blast
qed

lemma loadPlaces_distinct:
  assumes "loadPlaces endpoints broad narrow = Inr ps"
  shows "distinct (map pid ps)"
proof -
  from assms have "\<exists>els. ps = booze_places els"
    unfolding loadPlaces_def by (auto split: sum.splits)
  then show ?thesis using booze_places_distinct by blast
qed


lemma fetchPlaces_twice:
  "fetchPlaces [''mirror''] (\<lambda>i. Http 200 (Parsed (Obj (Arr [pizza_node, pizza_node])))) =
     Inr [toPlace extractCuisines pizza_node]"
  by (simp add: fetchPlaces_def res_ok_def app_places_def dedupeById_def normalizeElement_def
      pizza_node_def node_def toPlace_def Let_def)

lemma loadPlaces_twice:
  "loadPlaces [''mirror''] (\<lambda>i. Http 200 (Parsed (Obj (Arr [bar_node, diner_node, bar_node]))))
     (\<lambda>i. FetchRejects (Thrown [])) =
     Inr [toPlace collectTypes bar_node, toPlace collectTypes diner_node]"
  by (simp add: loadPlaces_def fetchOverpass_def res_ok_def booze_places_def dedupeById_def
      normalizeElement_def bar_node_def diner_node_def node_def toPlace_def Let_def)


text \<open>
  C7.  \<^verbatim>\<open>dedupeById\<close> keeps, in one pass and in the order of the input, the first entry
  of every id and drops the later ones: the ids of the result are pairwise distinct, the
  result is a subsequence of the input, no id is lost, and the entry found for an id is
  the first one of the input.  The venue lists that the programs build from the fetched
  elements (\<^verbatim>\<open>fetchPlaces\<close> of the food programs, \<^verbatim>\<open>loadPlaces\<close> of the booze
  programs) are such results: they hold no two venues with the same id, and so does every
  list that a fetch returns.
\<close>

theorem dedupeById_first_seen:
  "distinct (map pid (dedupeById items)) \<and>
   subseq (dedupeById items) items \<and>
   pid ` set (dedupeById items) = pid ` set items \<and>
   (\<forall>k. find (\<lambda>p. pid p = k) (dedupeById items) = find (\<lambda>p. pid p = k) items) \<and>
   distinct (map pid (app_places els)) \<and>
   distinct (map pid (booze_places els)) \<and>
   distinct (map pid (lafayette_places els)) \<and>
   (\<forall>k. find (\<lambda>p. pid p = k) (booze_places els) =
        find (\<lambda>p. pid p = k) (map (toPlace collectTypes) (map normalizeElement els))) \<and>
   subseq (booze_places els) (map (toPlace collectTypes) (map normalizeElement els)) \<and>
   subseq (app_places els) (map (toPlace extractCuisines) (map normalizeElement els)) \<and>
   (\<forall>ps. fetchPlaces endpoints respond = Inr ps \<longrightarrow> distinct (map pid ps)) \<and>
   (\<forall>ps. loadPlaces endpoints broad narrow = Inr ps \<longrightarrow> distinct (map pid ps))"
proof -
  have 1: "distinct (map pid (dedupeById items)) \<and>
   subseq (dedupeById items) items \<and>
   pid ` set (dedupeById items) = pid ` set items \<and>
   (\<forall>k. find (\<lambda>p. pid p = k) (dedupeById items) = find (\<lambda>p. pid p = k) items)" for items
    unfolding dedupeById_def
    by (simp add: dedupe_loop_distinct dedupe_loop_subseq dedupe_loop_keys dedupe_loop_find)
  have 2: "\<forall>k. find (\<lambda>p. pid p = k) (booze_places els) =
        find (\<lambda>p. pid p = k) (map (toPlace collectTypes) (map normalizeElement els))"
    unfolding booze_places_def using 1 by blast
  have 3: "subseq (booze_places els) (map (toPlace collectTypes) (map normalizeElement els))"
    unfolding booze_places_def using 1 by blast
  have "subseq (app_places els)
     (map (toPlace extractCuisines)
         (filter (\<lambda>n. case el_tags n of None \<Rightarrow> False
                    | Some t \<Rightarrow> (case t ''amenity'' of None \<Rightarrow> False
                        | Some a \<Rightarrow> a \<noteq> [] \<and> a \<in> set [''restaurant'', ''fast_food'', ''cafe'']))
           (map normalizeElement els)))"
    unfolding app_places_def using 1 by blast
  also have "subseq \<dots> (map (toPlace extractCuisines) (map normalizeElement els))"
    by (intro subseq_map) simp
  finally have 4:
    "subseq (app_places els) (map (toPlace extractCuisines) (map normalizeElement els))" .
  have 5: "\<forall>ps. fetchPlaces endpoints respond = Inr ps \<longrightarrow> distinct (map pid ps)"
    using fetchPlaces_distinct by blast
  have 6: "\<forall>ps. loadPlaces endpoints broad narrow = Inr ps \<longrightarrow> distinct (map pid ps)"
    using loadPlaces_distinct by blast
  from 1 [of items] app_places_distinct [of els] booze_places_distinct [of els]
    lafayette_places_distinct [of els] 2 3 4 5 6
  show ?thesis by (intro conjI) (elim conjE, assumption)+
qed

theorem dedupeById_first_seen_witness:
  "fetchPlaces [''mirror''] (\<lambda>i. Http 200 (Parsed (Obj (Arr [pizza_node, pizza_node])))) =
     Inr [toPlace extractCuisines pizza_node] \<and>
   distinct (map pid [toPlace extractCuisines pizza_node]) \<and>
   loadPlaces [''mirror''] (\<lambda>i. Http 200 (Parsed (Obj (Arr [bar_node, diner_node, bar_node]))))
     (\<lambda>i. FetchRejects (Thrown [])) =
     Inr [toPlace collectTypes bar_node, toPlace collectTypes diner_node] \<and>
   distinct (map pid [toPlace collectTypes bar_node, toPlace collectTypes diner_node])"
proof -
  note t = dedupeById_first_seen [where endpoints = "[''mirror'']"
      and respond = "\<lambda>i. Http 200 (Parsed (Obj (Arr [pizza_node, pizza_node])))"
      and broad = "\<lambda>i. Http 200 (Parsed (Obj (Arr [bar_node, diner_node, bar_node])))"
      and narrow = "\<lambda>i. FetchRejects (Thrown [])" and items = "[]" and els = "[]"]
  from t have f: "\<forall>ps. fetchPlaces [''mirror'']
        (\<lambda>i. Http 200 (Parsed (Obj (Arr [pizza_node, pizza_node])))) = Inr ps \<longrightarrow>
      distinct (map pid ps)"
    by (elim conjE)
  from t have l: "\<forall>ps. loadPlaces [''mirror'']
        (\<lambda>i. Http 200 (Parsed (Obj (Arr [bar_node, diner_node, bar_node]))))
        (\<lambda>i. FetchRejects (Thrown [])) = Inr ps \<longrightarrow>
      distinct (map pid ps)"
    by (elim conjE)
  from f [rule_format, OF fetchPlaces_twice] l [rule_format, OF loadPlaces_twice]
    fetchPlaces_twice loadPlaces_twice
  show ?thesis by (intro conjI)
qed

section \<open>Properties of the angle arithmetic\<close>

lemma js_rem_360_range:
  assumes "0 \<le> y" "y < 720"
  shows "js_rem y 360 = (if y < 360 then y else y - 360)"
proof (cases "y < 360")
  case True
  with assms have "\<lfloor>y / 360\<rfloor> = 0" by (simp add: floor_eq_iff)
  with assms True show ?thesis by (simp add: js_rem_def js_trunc_def)
next
  case False
  with assms have "\<lfloor>y / 360\<rfloor> = 1" by (simp add: floor_eq_iff)
  with assms False show ?thesis by (simp add: js_rem_def js_trunc_def)
qed

lemma js_rem_360_cases:
  fixes x :: real
  defines "r \<equiv> x - 360 * of_int \<lfloor>x / 360\<rfloor>"
  shows "js_rem x 360 = (if 0 \<le> x \<or> r = 0 then r else r - 360)"
proof -
  define q where "q = \<lfloor>x / 360\<rfloor>"
  have q1: "of_int q \<le> x / 360" and q2: "x / 360 < of_int q + 1"
    unfolding q_def by linarith+
  have r: "r = x - 360 * of_int q" by (simp add: r_def q_def)
  show ?thesis
  proof (cases "0 \<le> x")
    case True
    then show ?thesis by (simp add: js_rem_def js_trunc_def r q_def)
  next
    case neg: False
    show ?thesis
    proof (cases "r = 0")
      case True
      then have "x / 360 = of_int q" by (simp add: r)
      then have "\<lfloor>- (x / 360)\<rfloor> = - q" by simp
      with neg True show ?thesis by (simp add: js_rem_def js_trunc_def r)
    next
      case False
      with q1 have "of_int q < x / 360" by (simp add: r less_eq_real_def)
      with q2 have "\<lfloor>- (x / 360)\<rfloor> = - q - 1"
        by (intro floor_unique) simp_all
      with neg False show ?thesis by (simp add: js_rem_def js_trunc_def r)
    qed
  qed
qed

lemma normalize360_floor: "normalize360 x = x - 360 * of_int \<lfloor>x / 360\<rfloor>"
proof -
  define r where "r = x - 360 * of_int \<lfloor>x / 360\<rfloor>"
  have "of_int \<lfloor>x / 360\<rfloor> \<le> x / 360" "x / 360 < of_int \<lfloor>x / 360\<rfloor> + 1" by linarith+
  then have r0: "0 \<le> r" and r1: "r < 360" unfolding r_def by linarith+
  have c: "js_rem x 360 = (if 0 \<le> x \<or> r = 0 then r else r - 360)"
    unfolding r_def by (rule js_rem_360_cases)
  show ?thesis
  proof (cases "0 \<le> x \<or> r = 0")
    case True
    with c have "js_rem x 360 + 360 = r + 360" by simp
    moreover have "js_rem (r + 360) 360 = r"
      using r0 r1 by (subst js_rem_360_range) simp_all
    ultimately show ?thesis by (simp add: normalize360_def r_def)
  next
    case False
    with c have "js_rem x 360 + 360 = r" by simp
    moreover have "js_rem r 360 = r"
      using r0 r1 by (subst js_rem_360_range) simp_all
    ultimately show ?thesis by (simp add: normalize360_def r_def)
  qed
qed

lemma normalize360_range: "0 \<le> normalize360 x \<and> normalize360 x < 360"
proof -
  have "of_int \<lfloor>x / 360\<rfloor> \<le> x / 360" "x / 360 < of_int \<lfloor>x / 360\<rfloor> + 1" by linarith+
  then show ?thesis unfolding normalize360_floor by linarith
qed

lemma normalize360_shift: "normalize360 (x + 360 * of_int k) = normalize360 x"
proof -
  have "(x + 360 * of_int k) / 360 = x / 360 + of_int k" by simp
  then have "\<lfloor>(x + 360 * of_int k) / 360\<rfloor> = \<lfloor>x / 360\<rfloor> + k"
    by (simp only: floor_add_int [symmetric])
  then show ?thesis by (simp add: normalize360_floor algebra_simps)
qed

lemma normalize360_id: "0 \<le> x \<Longrightarrow> x < 360 \<Longrightarrow> normalize360 x = x"
proof -
  assume "0 \<le> x" "x < 360"
  then have "\<lfloor>x / 360\<rfloor> = 0" by (simp add: floor_eq_iff)
  then show ?thesis by (simp add: normalize360_floor)
qed

lemma normalize360_cong:
  assumes "x = y + 360 * of_int k"
  shows "normalize360 x = normalize360 y"
  using assms normalize360_shift [of y k] by simp

lemma chosenIndex_range:
  assumes "unit_draw u" "0 < n"
  shows "0 \<le> chosenIndex (real n) u \<and> chosenIndex (real n) u \<le> real n - 1"
proof -
  from assms have "0 \<le> u * real n" "u * real n < real n" by (simp_all add: unit_draw_def)
  then have "0 \<le> \<lfloor>u * real n\<rfloor>" "\<lfloor>u * real n\<rfloor> < int n" by (simp_all add: floor_less_iff)
  then have "0 \<le> \<lfloor>u * real n\<rfloor>" "\<lfloor>u * real n\<rfloor> \<le> int n - 1" by simp_all
  then have "(0::real) \<le> of_int \<lfloor>u * real n\<rfloor>" "real_of_int \<lfloor>u * real n\<rfloor> \<le> of_int (int n - 1)"
    by (simp_all only: of_int_le_iff of_int_0_le_iff)
  then show ?thesis by (simp add: chosenIndex_def js_floor_def)
qed

lemma js_rem_below:
  assumes "0 \<le> k" "k < n"
  shows "js_rem k n = k"
proof -
  from assms have "0 \<le> k / n" "k / n < 1" by simp_all
  then have "\<lfloor>k / n\<rfloor> = 0" by (simp add: floor_eq_iff)
  with \<open>0 \<le> k / n\<close> show ?thesis by (simp add: js_rem_def js_trunc_def)
qed

lemma rotation_brings_target:
  assumes t: "0 \<le> target" "target < 360"
  shows "normalize360 (- (acc + (4 + js_floor (u3 * 4)) * 360 +
            normalize360 (normalize360 (- acc + 90) - target)) + 90) = target"
proof -
  define k1 where "k1 = \<lfloor>(- acc + 90) / 360\<rfloor>"
  define cur where "cur = normalize360 (- acc + 90)"
  define k2 where "k2 = \<lfloor>(cur - target) / 360\<rfloor>"
  have cur: "cur = (- acc + 90) - 360 * of_int k1"
    by (simp add: cur_def k1_def normalize360_floor)
  have off: "normalize360 (cur - target) = (cur - target) - 360 * of_int k2"
    by (simp add: k2_def normalize360_floor)
  have "- (acc + (4 + js_floor (u3 * 4)) * 360 + normalize360 (cur - target)) + 90 =
        target + 360 * of_int (k1 + k2 - (4 + \<lfloor>u3 * 4\<rfloor>))"
    unfolding off using cur by (simp add: js_floor_def algebra_simps)
  then have "normalize360 (- (acc + (4 + js_floor (u3 * 4)) * 360 + normalize360 (cur - target)) + 90) =
        normalize360 target"
    by (rule normalize360_cong)
  with t show ?thesis by (simp add: normalize360_id cur_def)
qed

lemma decode_of_preselected:
  assumes n: "0 < n" "real n \<le> cap" and u1: "unit_draw u1" and u2: "unit_draw u2"
  shows "decodeIndex (booze_finalRotation cap acc (real n) u1 u2 u3) (360 / real n) (real n) =
         chosenIndex (real n) u1"
proof -
  define ci where "ci = chosenIndex (real n) u1"
  have ci: "0 \<le> ci" "ci \<le> real n - 1" using chosenIndex_range [OF u1 n(1)] by (simp_all add: ci_def)
  have ci_int: "ci = of_int \<lfloor>u1 * real n\<rfloor>" by (simp add: ci_def chosenIndex_def js_floor_def)
  have vc: "min (real n) cap = real n" using n by simp
  have vi: "js_floor (ci * real n / real n) = ci" "js_floor ci = ci"
    using n by (simp_all add: ci_int js_floor_def)
  define target where "target = ci * (360 / real n) + u2 * (360 / real n)"
  have tq: "target / (360 / real n) = ci + u2" "target * real n / 360 = ci + u2"
    using n by (simp_all add: target_def field_simps)
  have "0 \<le> ci + u2" "ci + u2 < real n" using ci u2 by (simp_all add: unit_draw_def)
  then have t: "0 \<le> target" "target < 360"
    using n by (simp_all add: target_def field_simps)
  have fr: "booze_finalRotation cap acc (real n) u1 u2 u3 =
      acc + (4 + js_floor (u3 * 4)) * 360 + normalize360 (normalize360 (- acc + 90) - target)"
    by (simp add: booze_finalRotation_def Let_def vc vi target_def ci_def [symmetric])
  have "normalize360 (- booze_finalRotation cap acc (real n) u1 u2 u3 + 90) = target"
    unfolding fr by (rule rotation_brings_target [OF t])
  moreover have "js_floor (ci + u2) = ci"
    using u2 by (simp add: ci_int js_floor_def unit_draw_def floor_eq_iff)
  moreover have "js_rem ci (real n) = ci"
    using ci by (intro js_rem_below) simp_all
  ultimately show ?thesis
    by (simp add: decodeIndex_def Let_def tq ci_def)
qed

section \<open>The wheel: the two ways to the winner agree\<close>


lemma ready_facts:
  "\<not> isSpinning ready_state" "currentFiltered ready_state \<noteq> []"
  "length (currentFiltered ready_state) = 3" "accumulatedRotation ready_state = 0"
  by (simp_all add: ready_state_def initial_state_def three_venues_def)


section \<open>The accumulated rotation\<close>

lemma extraSpins_range:
  assumes "unit_draw u"
  shows "0 \<le> js_floor (u * 4) \<and> js_floor (u * 4) \<le> 3"
proof -
  from assms have "0 \<le> u * 4" "u * 4 < 4" by (simp_all add: unit_draw_def)
  then have "0 \<le> \<lfloor>u * 4\<rfloor>" "\<lfloor>u * 4\<rfloor> < 4" by (simp_all add: floor_less_iff)
  then have "0 \<le> \<lfloor>u * 4\<rfloor>" "\<lfloor>u * 4\<rfloor> \<le> 3" by simp_all
  then have "(0::real) \<le> of_int \<lfloor>u * 4\<rfloor>" "real_of_int \<lfloor>u * 4\<rfloor> \<le> of_int 3"
    by (simp_all only: of_int_le_iff of_int_0_le_iff)
  then show ?thesis by (simp add: js_floor_def)
qed

lemma app_spinWheel_rotation:
  assumes "unit_draw u1" "unit_draw u2" "\<not> isSpinning s" "currentFiltered s \<noteq> []"
  shows "accumulatedRotation s + 4 * 360 \<le> accumulatedRotation (app_spinWheel u1 u2 s) \<and>
         accumulatedRotation (app_spinWheel u1 u2 s) < accumulatedRotation s + 8 * 360"
proof -
  have acc: "accumulatedRotation (app_spinWheel u1 u2 s) =
      accumulatedRotation s + (4 + js_floor (u1 * 4)) * 360 + u2 * 360"
    using assms(3,4) by (simp add: app_spinWheel_def Let_def)
  from assms(2) have "0 \<le> u2 * 360" "u2 * 360 < 360" by (simp_all add: unit_draw_def)
  with extraSpins_range [OF assms(1)] show ?thesis unfolding acc by (simp add: algebra_simps)
qed

lemma booze_finalRotation_bounds:
  assumes "unit_draw u3"
  shows "acc + 4 * 360 \<le> booze_finalRotation cap acc n u1 u2 u3 \<and>
         booze_finalRotation cap acc n u1 u2 u3 < acc + 8 * 360"
proof -
  obtain off where fr: "booze_finalRotation cap acc n u1 u2 u3 = acc + (4 + js_floor (u3 * 4)) * 360 + off"
    and off: "0 \<le> off" "off < 360"
    using normalize360_range by (auto simp: booze_finalRotation_def Let_def)
  from off extraSpins_range [OF assms] show ?thesis unfolding fr by (simp add: algebra_simps)
qed

lemma booze_spinWheel_rotation:
  assumes "unit_draw u3" "\<not> isSpinning s" "currentFiltered s \<noteq> []"
  shows "accumulatedRotation s + 4 * 360 \<le> accumulatedRotation (booze_spinWheel u1 u2 u3 s) \<and>
         accumulatedRotation (booze_spinWheel u1 u2 u3 s) < accumulatedRotation s + 8 * 360"
proof -
  have acc: "accumulatedRotation (booze_spinWheel u1 u2 u3 s) =
      booze_finalRotation MAX_VISUAL_SLICES (accumulatedRotation s)
        (real (length (currentFiltered s))) u1 u2 u3"
    using assms(2,3) by (simp add: booze_spinWheel_def spinWheel_with_def Let_def)
  show ?thesis unfolding acc by (rule booze_finalRotation_bounds [OF assms(1)])
qed

lemma rotation_showResult [simp]: "accumulatedRotation (showResult c s) = accumulatedRotation s"
  by (simp add: showResult_def split: option.splits)

lemma rotation_timeout [simp]: "accumulatedRotation (timeout s) = accumulatedRotation s"
  by (simp add: timeout_def split: option.splits timer.splits)

lemma rotation_app_applyFilters [simp]:
  "accumulatedRotation (app_applyFilters s) = accumulatedRotation s"
  by (simp add: app_applyFilters_def)

lemma rotation_booze_applyFilters [simp]:
  "accumulatedRotation (booze_applyFilters s) = accumulatedRotation s"
  by (simp add: booze_applyFilters_def)

lemma rotation_app_initialize [simp]:
  "accumulatedRotation (app_initialize lc outcome s) = accumulatedRotation s"
  by (simp add: app_initialize_def collectUniqueCuisines_def split: sum.splits)

lemma rotation_booze_initialize [simp]:
  "accumulatedRotation (booze_initialize lc outcome s) = accumulatedRotation s"
  by (simp add: booze_initialize_def buildTypesList_def Let_def split: sum.splits)

lemma app_spinWheel_idle:
  "isSpinning s \<or> currentFiltered s = [] \<Longrightarrow> app_spinWheel u1 u2 s = s"
  by (auto simp: app_spinWheel_def)

lemma booze_spinWheel_idle:
  "isSpinning s \<or> currentFiltered s = [] \<Longrightarrow> booze_spinWheel u1 u2 u3 s = s"
  by (auto simp: booze_spinWheel_def spinWheel_with_def)

lemma app_step_rotation:
  assumes "valid_event e"
  shows "accumulatedRotation s \<le> accumulatedRotation (app_step lc s e)"
proof (cases e)
  case (SpinClick u1 u2 u3)
  show ?thesis
  proof (cases "isSpinning s \<or> currentFiltered s = []")
    case True
    then show ?thesis using SpinClick by (simp add: app_spinWheel_idle)
  next
    case False
    with assms SpinClick app_spinWheel_rotation [of u1 u2 s] show ?thesis by simp
  qed
qed simp_all

lemma booze_step_rotation:
  assumes "valid_event e"
  shows "accumulatedRotation s \<le> accumulatedRotation (booze_step lc s e)"
proof (cases e)
  case (SpinClick u1 u2 u3)
  show ?thesis
  proof (cases "isSpinning s \<or> currentFiltered s = []")
    case True
    then show ?thesis using SpinClick by (simp add: booze_spinWheel_idle)
  next
    case False
    with assms SpinClick booze_spinWheel_rotation [of u3 s u1 u2] show ?thesis by simp
  qed
qed simp_all

lemma app_run_rotation:
  "list_all valid_event es \<Longrightarrow> accumulatedRotation s \<le> accumulatedRotation (app_run lc s es)"
proof (induction es arbitrary: s)
  case Nil
  show ?case by (simp add: app_run_def)
next
  case (Cons e es)
  then have "accumulatedRotation s \<le> accumulatedRotation (app_step lc s e)"
    by (simp add: app_step_rotation)
  also have "\<dots> \<le> accumulatedRotation (app_run lc (app_step lc s e) es)"
    using Cons by simp
  finally show ?case by (simp add: app_run_def)
qed

lemma booze_run_rotation:
  "list_all valid_event es \<Longrightarrow> accumulatedRotation s \<le> accumulatedRotation (booze_run lc s es)"
proof (induction es arbitrary: s)
  case Nil
  show ?case by (simp add: booze_run_def)
next
  case (Cons e es)
  then have "accumulatedRotation s \<le> accumulatedRotation (booze_step lc s e)"
    by (simp add: booze_step_rotation)
  also have "\<dots> \<le> accumulatedRotation (booze_run lc (booze_step lc s e) es)"
    using Cons by simp
  finally show ?case by (simp add: booze_run_def)
qed

text \<open>
  C9.  The accumulated rotation never decreases, whatever the events of a session are
  (spins, timers, filter changes, reloads), in the programs that decode the winner and in
  the programs that choose it first; and a spin that starts (the wheel is at rest and the
  filtered list is not empty) adds at least four full turns and less than eight, so that
  the value grows strictly with every spin and is never set back to zero.
\<close>

theorem accumulatedRotation_grows:
  assumes "list_all valid_event es"
    and "unit_draw u1" and "unit_draw u2" and "unit_draw u3"
    and "\<not> isSpinning s" and "currentFiltered s \<noteq> []"
  shows "accumulatedRotation s0 \<le> accumulatedRotation (app_run lc s0 es) \<and>
         accumulatedRotation s0 \<le> accumulatedRotation (booze_run lc s0 es) \<and>
         accumulatedRotation s + 4 * 360 \<le> accumulatedRotation (app_spinWheel u1 u2 s) \<and>
         accumulatedRotation (app_spinWheel u1 u2 s) < accumulatedRotation s + 8 * 360 \<and>
         accumulatedRotation s + 4 * 360 \<le> accumulatedRotation (booze_spinWheel u1 u2 u3 s) \<and>
         accumulatedRotation (booze_spinWheel u1 u2 u3 s) < accumulatedRotation s + 8 * 360"
  using app_run_rotation [OF assms(1)] booze_run_rotation [OF assms(1)]
    app_spinWheel_rotation [OF assms(2,3,5,6)] booze_spinWheel_rotation [OF assms(4,5,6)]
  by simp


theorem accumulatedRotation_grows_witness:
  "accumulatedRotation initial_state \<le>
     accumulatedRotation (app_run no_collation initial_state
       [Initialize (Inr three_venues), SpinClick (1/2) (1/4) 0, FastFoodChange False, TimerFires,
        Initialize (Inl OverpassFailed)]) \<and>
   accumulatedRotation initial_state \<le>
     accumulatedRotation (booze_run no_collation initial_state
       [Initialize (Inr three_venues), SpinClick (1/2) (1/4) 0, FastFoodChange False, TimerFires,
        Initialize (Inl OverpassFailed)]) \<and>
   accumulatedRotation ready_state + 4 * 360 \<le> accumulatedRotation (app_spinWheel (1/2) (1/4) ready_state) \<and>
   accumulatedRotation (app_spinWheel (1/2) (1/4) ready_state) < accumulatedRotation ready_state + 8 * 360 \<and>
   accumulatedRotation ready_state + 4 * 360 \<le> accumulatedRotation (booze_spinWheel (1/2) (1/4) 0 ready_state) \<and>
   accumulatedRotation (booze_spinWheel (1/2) (1/4) 0 ready_state) < accumulatedRotation ready_state + 8 * 360 \<and>
   accumulatedRotation (app_spinWheel (1/2) (1/4) ready_state) = 2250"
proof -
  have u: "unit_draw (1/2)" "unit_draw (1/4)" "unit_draw 0" by (simp_all add: unit_draw_def)
  have es: "list_all valid_event
      [Initialize (Inr three_venues), SpinClick (1/2) (1/4) 0, FastFoodChange False, TimerFires,
       Initialize (Inl OverpassFailed)]"
    by (simp add: u)
  have r: "\<not> isSpinning ready_state" "currentFiltered ready_state \<noteq> []"
    by (simp_all add: ready_state_def initial_state_def three_venues_def)
  have v: "accumulatedRotation (app_spinWheel (1/2) (1/4) ready_state) = 2250"
    using r by (simp add: app_spinWheel_def Let_def js_floor_def ready_state_def initial_state_def)
  from accumulatedRotation_grows [OF es u r, of initial_state no_collation] v
  show ?thesis by blast
qed

section \<open>Uniform selection\<close>

lemma chosenIndex_interval:
  assumes "0 < n" "i < n"
  shows "{u. unit_draw u \<and> chosenIndex (real n) u = real i} =
         {real i / real n ..< (real i + 1) / real n}"
proof -
  have le1: "(real i + 1) / real n \<le> 1" using assms by simp
  have ge0: "0 \<le> real i / real n" by simp
  have eq: "chosenIndex (real n) u = real i \<longleftrightarrow> real i / real n \<le> u \<and> u < (real i + 1) / real n" for u
  proof -
    have "chosenIndex (real n) u = real i \<longleftrightarrow> \<lfloor>u * real n\<rfloor> = int i"
      by (simp add: chosenIndex_def js_floor_def) linarith
    also have "\<dots> \<longleftrightarrow> real i \<le> u * real n \<and> u * real n < real i + 1"
      by (simp add: floor_eq_iff)
    also have "\<dots> \<longleftrightarrow> real i / real n \<le> u \<and> u < (real i + 1) / real n"
      using assms(1) by (simp add: field_simps)
    finally show ?thesis .
  qed
  show ?thesis
  proof (rule set_eqI)
    fix u
    show "u \<in> {u. unit_draw u \<and> chosenIndex (real n) u = real i} \<longleftrightarrow>
          u \<in> {real i / real n ..< (real i + 1) / real n}"
      by (auto simp: eq unit_draw_def intro: order_trans [OF ge0] less_le_trans [OF _ le1])
  qed
qed

lemma normalize360_frac: "normalize360 x = 360 * frac (x / 360)"
  by (simp add: normalize360_floor frac_def)

lemma decodeIndex_app:
  assumes "0 < n"
  shows "decodeIndex (acc + (4 + js_floor (u1 * 4)) * 360 + u2 * 360) (360 / real n) (real n) =
         chosenIndex (real n) (frac ((90 - acc) / 360 - u2))"
proof -
  define v where "v = frac ((90 - acc) / 360 - u2)"
  have v: "unit_draw v" by (simp add: v_def unit_draw_def frac_lt_1)
  have "- (acc + (4 + js_floor (u1 * 4)) * 360 + u2 * 360) + 90 =
        (90 - acc - u2 * 360) + 360 * of_int (- (4 + \<lfloor>u1 * 4\<rfloor>))"
    by (simp add: js_floor_def algebra_simps)
  then have "normalize360 (- (acc + (4 + js_floor (u1 * 4)) * 360 + u2 * 360) + 90) =
        normalize360 (90 - acc - u2 * 360)"
    by (rule normalize360_cong)
  also have "\<dots> = 360 * v"
    by (simp add: normalize360_frac v_def diff_divide_distrib)
  finally have nz: "normalize360 (- (acc + (4 + js_floor (u1 * 4)) * 360 + u2 * 360) + 90) = 360 * v" .
  have q: "360 * v / (360 / real n) = v * real n" using assms by simp
  have "js_rem (chosenIndex (real n) v) (real n) = chosenIndex (real n) v"
    using chosenIndex_range [OF v assms] assms by (intro js_rem_below) simp_all
  then show ?thesis
    unfolding decodeIndex_def Let_def nz q v_def [symmetric]
    by (simp add: chosenIndex_def)
qed

lemma phase_involution:
  assumes "unit_draw u"
  shows "frac (c - frac (c - u)) = u"
proof -
  have "c - frac (c - u) = u + of_int \<lfloor>c - u\<rfloor>" by (simp add: frac_def)
  then have "frac (c - frac (c - u)) = frac (u + of_int \<lfloor>c - u\<rfloor>)" by simp
  also have "\<dots> = frac u" by (simp add: frac_def)
  also have "\<dots> = u" using assms by (simp add: frac_eq unit_draw_def)
  finally show ?thesis .
qed


lemma js_index_nat:
  "i < length xs \<Longrightarrow> js_index xs (real i) = Some (xs ! i)"
  by (simp add: js_index_def)

lemma js_index_chosenIndex:
  assumes "unit_draw u" "xs \<noteq> []"
  shows "\<exists>p. js_index xs (chosenIndex (real (length xs)) u) = Some p \<and> p \<in> set xs"
proof -
  have n: "0 < length xs" using assms(2) by simp
  define k where "k = nat \<lfloor>u * real (length xs)\<rfloor>"
  from chosenIndex_range [OF assms(1) n]
  have r: "0 \<le> \<lfloor>u * real (length xs)\<rfloor>" "real_of_int \<lfloor>u * real (length xs)\<rfloor> \<le> real (length xs) - 1"
    by (simp_all add: chosenIndex_def js_floor_def)
  then have k: "chosenIndex (real (length xs)) u = real k" "k < length xs"
    by (simp_all add: chosenIndex_def js_floor_def k_def) linarith
  then show ?thesis by (simp add: js_index_nat)
qed

lemma timeout_reveal:
  assumes "\<not> isSpinning s" "currentFiltered s \<noteq> []" "unit_draw u1"
  shows "resultCard (timeout (spinWheel_with cap u1 u2 u3 s)) =
         js_index (currentFiltered s) (chosenIndex (real (length (currentFiltered s))) u1)"
proof -
  obtain p where p: "js_index (currentFiltered s) (chosenIndex (real (length (currentFiltered s))) u1) = Some p"
    using js_index_chosenIndex [OF assms(3,2)] by blast
  show ?thesis
    using assms(1,2) by (simp add: spinWheel_with_def Let_def timeout_def showResult_def p)
qed

lemma timeout_decode:
  assumes "\<not> isSpinning s" "currentFiltered s \<noteq> []"
  shows "resultCard (timeout (app_spinWheel u1 u2 s)) =
         js_index (currentFiltered s)
           (chosenIndex (real (length (currentFiltered s))) (frac ((90 - accumulatedRotation s) / 360 - u2)))"
proof -
  define n where "n = length (currentFiltered s)"
  define F where "F = accumulatedRotation s + (4 + js_floor (u1 * 4)) * 360 + u2 * 360"
  define v where "v = frac ((90 - accumulatedRotation s) / 360 - u2)"
  have n: "0 < n" using assms(2) by (simp add: n_def)
  have v: "unit_draw v" by (simp add: v_def unit_draw_def frac_lt_1)
  obtain p where p: "js_index (currentFiltered s) (chosenIndex (real n) v) = Some p"
    using js_index_chosenIndex [OF v assms(2)] by (auto simp: n_def)
  have dec: "decodeIndex F (360 / real n) (real n) = chosenIndex (real n) v"
    unfolding F_def v_def by (rule decodeIndex_app [OF n])
  have sp: "app_spinWheel u1 u2 s =
      s\<lparr>isSpinning := True, resultCard := None, accumulatedRotation := F,
        pending := Some (Decode F (360 / real n) (real n))\<rparr>"
    using assms by (simp add: app_spinWheel_def Let_def F_def n_def)
  have "resultCard (timeout (app_spinWheel u1 u2 s)) = Some p"
    unfolding sp by (simp add: timeout_def showResult_def dec p)
  then show ?thesis using p by (simp add: n_def v_def)
qed



section \<open>The index of the winner\<close>

lemma decodeIndex_range:
  assumes "0 < n"
  shows "\<exists>k < n. decodeIndex F (360 / real n) (real n) = real k"
proof -
  define v where "v = normalize360 (- F + 90) / 360"
  have v: "unit_draw v" using normalize360_range [of "- F + 90"] by (simp add: v_def unit_draw_def)
  have q: "normalize360 (- F + 90) / (360 / real n) = v * real n" by (simp add: v_def)
  from chosenIndex_range [OF v assms]
  have r: "0 \<le> \<lfloor>v * real n\<rfloor>" "real_of_int \<lfloor>v * real n\<rfloor> \<le> real n - 1"
    by (simp_all add: chosenIndex_def js_floor_def)
  define k where "k = nat \<lfloor>v * real n\<rfloor>"
  from r have k: "js_floor (v * real n) = real k" "k < n"
    by (simp_all add: js_floor_def k_def) linarith
  then have "js_rem (real k) (real n) = real k" by (intro js_rem_below) simp_all
  with k show ?thesis unfolding decodeIndex_def Let_def q by auto
qed

lemma initialize_three:
  "app_initialize no_collation (Inr three_venues) initial_state =
     initial_state\<lparr>allPlaces := three_venues,
       uniqueCategories := [''italian'', ''burger'', ''mexican''],
       currentFiltered := three_venues\<rparr>"
  by (simp add: app_initialize_def app_applyFilters_def app_keeps_def collectUniqueCuisines_def
      initial_state_def three_venues_def venue_def sort_cmp_def distinct_first_def no_collation_def)


lemma decodeIndex_example: "decodeIndex 1620 120 3 = 2"
  by (simp add: decodeIndex_def normalize360_floor js_floor_def js_rem_def js_trunc_def)

lemma spin_three:
  "app_spinWheel 0 (1/2)
     (initial_state\<lparr>allPlaces := three_venues,
        uniqueCategories := [''italian'', ''burger'', ''mexican''],
        currentFiltered := three_venues\<rparr>) =
   initial_state\<lparr>allPlaces := three_venues,
      uniqueCategories := [''italian'', ''burger'', ''mexican''],
      currentFiltered := three_venues, isSpinning := True, accumulatedRotation := 1620,
      pending := Some (Decode 1620 120 3)\<rparr>"
  by (simp add: app_spinWheel_def Let_def js_floor_def initial_state_def three_venues_def)

lemma exclude_mexican:
  "app_applyFilters
     \<lparr>allPlaces = three_venues, excluded = {''mexican''},
      uniqueCategories = [''italian'', ''burger'', ''mexican''],
      includeFastFood = True, includeCafe = True, currentFiltered = three_venues,
      isSpinning = True, accumulatedRotation = 1620, pending = Some (Decode 1620 120 3),
      resultCard = None, uncaught = []\<rparr> =
   \<lparr>allPlaces = three_venues, excluded = {''mexican''},
    uniqueCategories = [''italian'', ''burger'', ''mexican''],
    includeFastFood = True, includeCafe = True,
    currentFiltered = [venue ''node/1'' ''restaurant'' ''Roma'' [''italian''],
                       venue ''node/2'' ''fast_food'' ''Burger Stop'' [''burger'']],
    isSpinning = True, accumulatedRotation = 1620, pending = Some (Decode 1620 120 3),
    resultCard = None, uncaught = []\<rparr>"
  by (simp add: app_applyFilters_def app_keeps_def three_venues_def venue_def)

text \<open>
  C10.  The failing session of app.js: three venues are loaded, a spin starts and its
  rotation decodes to the index 2, the category of the third venue is excluded while the
  wheel turns, and the timer fires.  The callback reads the filtered list of that moment,
  which has two venues, at the index 2: the result is \<^verbatim>\<open>undefined\<close>, and
  \<^verbatim>\<open>showResult\<close> throws a \<^verbatim>\<open>TypeError\<close>.  Without the change of the filter the
  same spin reveals the third venue.
\<close>

theorem stale_index_after_filter_change:
  "uncaught (app_run no_collation initial_state
      [Initialize (Inr three_venues), SpinClick 0 (1/2) 0, CategoryChange ''mexican'' True,
       TimerFires]) = [TypeError] \<and>
   resultCard (app_run no_collation initial_state
      [Initialize (Inr three_venues), SpinClick 0 (1/2) 0, CategoryChange ''mexican'' True,
       TimerFires]) = None \<and>
   uncaught (app_run no_collation initial_state
      [Initialize (Inr three_venues), SpinClick 0 (1/2) 0, TimerFires]) = [] \<and>
   resultCard (app_run no_collation initial_state
      [Initialize (Inr three_venues), SpinClick 0 (1/2) 0, TimerFires]) =
     Some (venue ''node/3'' ''fast_food'' ''Taco Stop'' [''mexican''])"
proof -
  have a: "app_run no_collation initial_state
      [Initialize (Inr three_venues), SpinClick 0 (1/2) 0, CategoryChange ''mexican'' True,
       TimerFires] =
    timeout (initial_state\<lparr>allPlaces := three_venues,
      uniqueCategories := [''italian'', ''burger'', ''mexican''],
      currentFiltered := [venue ''node/1'' ''restaurant'' ''Roma'' [''italian''],
                          venue ''node/2'' ''fast_food'' ''Burger Stop'' [''burger'']],
      isSpinning := True, accumulatedRotation := 1620,
      pending := Some (Decode 1620 120 3), excluded := {''mexican''}\<rparr>)"
    unfolding app_run_def
    by (simp add: initialize_three spin_three) (simp add: initial_state_def exclude_mexican)
  have b: "app_run no_collation initial_state
      [Initialize (Inr three_venues), SpinClick 0 (1/2) 0, TimerFires] =
    timeout (initial_state\<lparr>allPlaces := three_venues,
      uniqueCategories := [''italian'', ''burger'', ''mexican''],
      currentFiltered := three_venues, isSpinning := True, accumulatedRotation := 1620,
      pending := Some (Decode 1620 120 3)\<rparr>)"
    unfolding app_run_def by (simp add: initialize_three spin_three)
  show ?thesis
    unfolding a b
    by (simp add: timeout_def decodeIndex_example js_index_def showResult_def initial_state_def
        three_venues_def)
qed

section \<open>Properties of the filters\<close>

lemma set_distinct_first [simp]: "set (distinct_first xs) = set xs"
  using dedupe_loop_keys [of "\<lambda>x. x" "{}" xs] by (simp add: distinct_first_def)

lemma set_insert_cmp [simp]: "set (insert_cmp lc x ys) = insert x (set ys)"
  by (induction ys) auto

lemma set_sort_cmp [simp]: "set (sort_cmp lc xs) = set xs"
  by (induction xs) (simp_all add: sort_cmp_def)

lemma app_keeps_frame:
  assumes "excluded t = excluded s" "uniqueCategories t = uniqueCategories s"
    "includeFastFood t = includeFastFood s" "includeCafe t = includeCafe s"
  shows "app_keeps t = app_keeps s"
  using assms by (simp add: app_keeps_def fun_eq_iff)

lemma booze_keeps_frame:
  assumes "excluded t = excluded s" "uniqueCategories t = uniqueCategories s"
  shows "booze_keeps t = booze_keeps s"
  using assms by (simp add: booze_keeps_def fun_eq_iff)

lemma app_keeps_applyFilters [simp]: "app_keeps (app_applyFilters s) = app_keeps s"
  by (rule app_keeps_frame) (simp_all add: app_applyFilters_def)

lemma booze_keeps_applyFilters [simp]: "booze_keeps (booze_applyFilters s) = booze_keeps s"
  by (rule booze_keeps_frame) (simp_all add: booze_applyFilters_def)

lemma app_applyFilters_fields [simp]:
  "allPlaces (app_applyFilters s) = allPlaces s"
  "uniqueCategories (app_applyFilters s) = uniqueCategories s"
  "excluded (app_applyFilters s) = excluded s"
  "currentFiltered (app_applyFilters s) = filter (app_keeps s) (allPlaces s)"
  by (simp_all add: app_applyFilters_def)

lemma booze_applyFilters_fields [simp]:
  "allPlaces (booze_applyFilters s) = allPlaces s"
  "uniqueCategories (booze_applyFilters s) = uniqueCategories s"
  "excluded (booze_applyFilters s) = excluded s"
  "currentFiltered (booze_applyFilters s) = filter (booze_keeps s) (allPlaces s)"
  by (simp_all add: booze_applyFilters_def)

text \<open>What a spin and a timer leave as they are.\<close>

lemma app_spinWheel_frame:
  "allPlaces (app_spinWheel u1 u2 s) = allPlaces s \<and>
   currentFiltered (app_spinWheel u1 u2 s) = currentFiltered s \<and>
   uniqueCategories (app_spinWheel u1 u2 s) = uniqueCategories s \<and>
   excluded (app_spinWheel u1 u2 s) = excluded s \<and>
   includeFastFood (app_spinWheel u1 u2 s) = includeFastFood s \<and>
   includeCafe (app_spinWheel u1 u2 s) = includeCafe s"
  by (simp add: app_spinWheel_def Let_def)

lemma booze_spinWheel_frame:
  "allPlaces (booze_spinWheel u1 u2 u3 s) = allPlaces s \<and>
   currentFiltered (booze_spinWheel u1 u2 u3 s) = currentFiltered s \<and>
   uniqueCategories (booze_spinWheel u1 u2 u3 s) = uniqueCategories s \<and>
   excluded (booze_spinWheel u1 u2 u3 s) = excluded s"
  by (simp add: booze_spinWheel_def spinWheel_with_def Let_def)

lemma timeout_frame:
  "allPlaces (timeout s) = allPlaces s \<and>
   currentFiltered (timeout s) = currentFiltered s \<and>
   uniqueCategories (timeout s) = uniqueCategories s \<and>
   excluded (timeout s) = excluded s \<and>
   includeFastFood (timeout s) = includeFastFood s \<and>
   includeCafe (timeout s) = includeCafe s"
  by (simp add: timeout_def showResult_def split: option.splits timer.splits)

text \<open>
  In every state that a session reaches, the filtered list is the list of all venues
  filtered by the predicate of the state, and the list of categories is the one computed
  from the venues.
\<close>

lemma app_step_filtered:
  assumes "currentFiltered s = filter (app_keeps s) (allPlaces s)"
  shows "currentFiltered (app_step lc s e) = filter (app_keeps (app_step lc s e)) (allPlaces (app_step lc s e))"
proof (cases e)
  case (SpinClick u1 u2 u3)
  have "app_keeps (app_spinWheel u1 u2 s) = app_keeps s"
    by (rule app_keeps_frame) (simp_all add: app_spinWheel_frame)
  with assms SpinClick show ?thesis by (simp add: app_spinWheel_frame)
next
  case TimerFires
  have "app_keeps (timeout s) = app_keeps s"
    by (rule app_keeps_frame) (simp_all add: timeout_frame)
  with assms TimerFires show ?thesis by (simp add: timeout_frame)
next
  case (Initialize outcome)
  have "app_keeps (s\<lparr>resultCard := None\<rparr>) = app_keeps s"
    by (rule app_keeps_frame) simp_all
  with assms Initialize show ?thesis
    by (cases outcome) (simp_all add: app_initialize_def)
qed simp_all

lemma app_step_unique:
  assumes "set (uniqueCategories s) = (\<Union>p\<in>set (allPlaces s). set (categories p))"
  shows "set (uniqueCategories (app_step lc s e)) =
         (\<Union>p\<in>set (allPlaces (app_step lc s e)). set (categories p))"
proof (cases e)
  case (SpinClick u1 u2 u3)
  with assms show ?thesis by (simp add: app_spinWheel_frame)
next
  case TimerFires
  with assms show ?thesis by (simp add: timeout_frame)
next
  case (Initialize outcome)
  with assms show ?thesis
    by (cases outcome) (simp_all add: app_initialize_def collectUniqueCuisines_def)
qed (use assms in simp_all)

lemma app_run_invariant:
  assumes "currentFiltered s = filter (app_keeps s) (allPlaces s)"
    and "set (uniqueCategories s) = (\<Union>p\<in>set (allPlaces s). set (categories p))"
  shows "currentFiltered (app_run lc s es) = filter (app_keeps (app_run lc s es)) (allPlaces (app_run lc s es)) \<and>
         set (uniqueCategories (app_run lc s es)) = (\<Union>p\<in>set (allPlaces (app_run lc s es)). set (categories p))"
  using assms
proof (induction es arbitrary: s)
  case Nil
  then show ?case by (simp add: app_run_def)
next
  case (Cons e es)
  have 1: "currentFiltered (app_step lc s e) =
      filter (app_keeps (app_step lc s e)) (allPlaces (app_step lc s e))"
    by (rule app_step_filtered [OF Cons.prems(1)])
  have 2: "set (uniqueCategories (app_step lc s e)) =
      (\<Union>p\<in>set (allPlaces (app_step lc s e)). set (categories p))"
    by (rule app_step_unique [OF Cons.prems(2)])
  from Cons.IH [OF 1 2] show ?case by (simp add: app_run_def)
qed


lemma buildTypesList_frame [simp]:
  "allPlaces (buildTypesList lc s) = allPlaces s"
  "excluded (buildTypesList lc s) = excluded s"
  "currentFiltered (buildTypesList lc s) = currentFiltered s"
  by (simp_all add: buildTypesList_def Let_def)

lemma buildTypesList_cong:
  "allPlaces t = allPlaces s \<Longrightarrow>
   uniqueCategories (buildTypesList lc t) = uniqueCategories (buildTypesList lc s)"
  by (simp add: buildTypesList_def Let_def)

lemma booze_step_filtered:
  assumes "currentFiltered s = filter (booze_keeps s) (allPlaces s)"
  shows "currentFiltered (booze_step lc s e) =
         filter (booze_keeps (booze_step lc s e)) (allPlaces (booze_step lc s e))"
proof (cases e)
  case (SpinClick u1 u2 u3)
  have "booze_keeps (booze_spinWheel u1 u2 u3 s) = booze_keeps s"
    by (rule booze_keeps_frame) (simp_all add: booze_spinWheel_frame)
  with assms SpinClick show ?thesis by (simp add: booze_spinWheel_frame)
next
  case TimerFires
  have "booze_keeps (timeout s) = booze_keeps s"
    by (rule booze_keeps_frame) (simp_all add: timeout_frame)
  with assms TimerFires show ?thesis by (simp add: timeout_frame)
next
  case (Initialize outcome)
  have "booze_keeps (s\<lparr>resultCard := None\<rparr>) = booze_keeps s"
    by (rule booze_keeps_frame) simp_all
  with assms Initialize show ?thesis
    by (cases outcome) (simp_all add: booze_initialize_def)
qed (use assms in simp_all)

lemma booze_step_unique:
  assumes "uniqueCategories s = uniqueCategories (buildTypesList lc s)"
  shows "uniqueCategories (booze_step lc s e) =
         uniqueCategories (buildTypesList lc (booze_step lc s e))"
proof (cases e)
  case (SpinClick u1 u2 u3)
  with assms show ?thesis
    by (simp add: booze_spinWheel_frame buildTypesList_cong [of "booze_spinWheel u1 u2 u3 s" s])
next
  case TimerFires
  with assms show ?thesis by (simp add: timeout_frame buildTypesList_cong [of "timeout s" s])
next
  case (CategoryChange c checked)
  with assms show ?thesis
    by (simp add: buildTypesList_cong
        [of "booze_applyFilters (s\<lparr>excluded := (if checked then insert c (excluded s) else excluded s - {c})\<rparr>)" s])
next
  case SelectNone
  with assms show ?thesis
    by (simp add: buildTypesList_cong [of "booze_applyFilters (s\<lparr>excluded := {}\<rparr>)" s])
next
  case SelectAll
  have "uniqueCategories (buildTypesList lc (booze_step lc s e)) =
      uniqueCategories (buildTypesList lc s)"
    by (rule buildTypesList_cong) (simp add: SelectAll)
  moreover have "uniqueCategories (booze_step lc s e) = uniqueCategories s"
    by (simp add: SelectAll)
  ultimately show ?thesis using assms by simp
next
  case (Initialize outcome)
  show ?thesis
  proof (cases outcome)
    case (Inl err)
    with assms Initialize show ?thesis
      by (simp add: booze_initialize_def buildTypesList_cong [of "s\<lparr>resultCard := None\<rparr>" s])
  next
    case (Inr places)
    have a: "booze_step lc s e =
        booze_applyFilters
          ((buildTypesList lc (s\<lparr>resultCard := None, allPlaces := places\<rparr>))\<lparr>excluded := {}\<rparr>)"
      by (simp add: Initialize Inr booze_initialize_def)
    have "uniqueCategories (buildTypesList lc (booze_step lc s e)) =
        uniqueCategories (buildTypesList lc (s\<lparr>resultCard := None, allPlaces := places\<rparr>))"
      by (rule buildTypesList_cong) (simp add: a)
    moreover have "uniqueCategories (booze_step lc s e) =
        uniqueCategories (buildTypesList lc (s\<lparr>resultCard := None, allPlaces := places\<rparr>))"
      by (simp add: a)
    ultimately show ?thesis by simp
  qed
qed (use assms in simp_all)

lemma booze_run_invariant:
  assumes "currentFiltered s = filter (booze_keeps s) (allPlaces s)"
    and "uniqueCategories s = uniqueCategories (buildTypesList lc s)"
  shows "currentFiltered (booze_run lc s es) =
           filter (booze_keeps (booze_run lc s es)) (allPlaces (booze_run lc s es)) \<and>
         uniqueCategories (booze_run lc s es) = uniqueCategories (buildTypesList lc (booze_run lc s es))"
  using assms
proof (induction es arbitrary: s)
  case Nil
  then show ?case by (simp add: booze_run_def)
next
  case (Cons e es)
  have 1: "currentFiltered (booze_step lc s e) =
      filter (booze_keeps (booze_step lc s e)) (allPlaces (booze_step lc s e))"
    by (rule booze_step_filtered [OF Cons.prems(1)])
  have 2: "uniqueCategories (booze_step lc s e) =
      uniqueCategories (buildTypesList lc (booze_step lc s e))"
    by (rule booze_step_unique [OF Cons.prems(2)])
  from Cons.IH [OF 1 2] show ?case by (simp add: booze_run_def)
qed

text \<open>The rule of the category filter, for a state with the invariant.\<close>

lemma app_keeps_rule:
  assumes "set (categories p) \<subseteq> set (uniqueCategories s)"
  shows "app_keeps s p \<longleftrightarrow>
     \<not> (tags p ''amenity'' = Some ''fast_food'' \<and> \<not> includeFastFood s) \<and>
     \<not> (tags p ''amenity'' = Some ''cafe'' \<and> \<not> includeCafe s) \<and>
     (categories p = [] \<or> (\<exists>c\<in>set (categories p). c \<notin> excluded s))"
  using assms by (auto simp: app_keeps_def Let_def list_ex_iff)

lemma booze_keeps_rule:
  assumes u: "uniqueCategories s = uniqueCategories (buildTypesList lc s)"
    and q: "q \<in> set (allPlaces s)"
  shows "booze_keeps s q \<longleftrightarrow> (\<exists>t\<in>set (categories q). t \<notin> excluded s)"
proof (cases "distinct_first (concat (map categories (allPlaces s))) = []")
  case False
  then have "uniqueCategories s = sort_cmp lc (distinct_first (concat (map categories (allPlaces s))))"
    using u by (simp add: buildTypesList_def Let_def)
  then have s: "set (uniqueCategories s) = (\<Union>p\<in>set (allPlaces s). set (categories p))" by simp
  from False have "set (distinct_first (concat (map categories (allPlaces s)))) \<noteq> {}"
    by (simp only: set_empty not_False_eq_True)
  then have "set (uniqueCategories s) \<noteq> {}" using s by simp
  then have ne: "uniqueCategories s \<noteq> []" by auto
  from q s have "set (categories q) \<subseteq> set (uniqueCategories s)" by auto
  with ne show ?thesis by (auto simp: booze_keeps_def Let_def list_ex_iff)
next
  case True
  then have "set (distinct_first (concat (map categories (allPlaces s)))) = {}" by simp
  then have none: "\<forall>p\<in>set (allPlaces s). categories p = []" by simp
  with q have cq: "categories q = []" by simp
  show ?thesis
  proof (cases "uniqueCategories s = []")
    case False
    with cq show ?thesis by (simp add: booze_keeps_def Let_def)
  next
    case empty: True
    define fb where "fb = concat (map (\<lambda>p.
        (case tags p ''amenity'' of None \<Rightarrow> [] | Some a \<Rightarrow> if a \<in> set nightlife then [a] else []) @
        (if tagged_brewery (tags p) then [''brewery''] else [])) (allPlaces s))"
    have "uniqueCategories s = sort_cmp lc (distinct_first fb)"
      using u True by (simp add: buildTypesList_def Let_def fb_def)
    with empty have "set (sort_cmp lc (distinct_first fb)) = {}" by simp
    then have "set fb = {}" by simp
    then have "fb = []" by simp
    with q have "(case tags q ''amenity'' of None \<Rightarrow> [] | Some a \<Rightarrow> if a \<in> set nightlife then [a] else []) = []"
      and "\<not> tagged_brewery (tags q)"
      by (auto simp: fb_def split: if_splits)
    then have "\<not> tagged_nightlife (tags q)" "\<not> tagged_brewery (tags q)"
      by (auto simp: tagged_nightlife_def split: option.splits if_splits)
    with empty cq show ?thesis by (simp add: booze_keeps_def Let_def)
  qed
qed

lemma two_foods_run:
  "app_run no_collation initial_state [Initialize (Inr two_foods), CategoryChange ''italian'' True] =
   initial_state\<lparr>allPlaces := two_foods, uniqueCategories := [''italian'', ''pizza''],
     excluded := {''italian''}, currentFiltered := two_foods\<rparr>"
  by (simp add: app_run_def app_initialize_def app_applyFilters_def app_keeps_def
      collectUniqueCuisines_def initial_state_def two_foods_def venue_def sort_cmp_def
      distinct_first_def no_collation_def)

lemma collectTypes_bar: "collectTypes [''amenity'' \<mapsto> ''bar'', ''name'' \<mapsto> ''The Tap''] = [''bar'']"
  by (simp add: collectTypes_def Let_def nightlife_def or_else_def is_yes_def toLowerCase_def
      is_ascii_def lower_char_def upper_letters_def lower_letters_def nameSuggestsAlcohol_def
      nameSuggestsBrewery_def lit_def word_lit_def lit_end_def js_includes_def distinct_first_def)

lemma collectTypes_diner:
  "collectTypes [''amenity'' \<mapsto> ''restaurant'', ''name'' \<mapsto> ''Diner''] = []"
  by (simp add: collectTypes_def Let_def nightlife_def or_else_def is_yes_def toLowerCase_def
      is_ascii_def lower_char_def upper_letters_def lower_letters_def nameSuggestsAlcohol_def
      nameSuggestsBrewery_def lit_def word_lit_def lit_end_def js_includes_def distinct_first_def
      word_boundary_def is_word_char_def)


lemma booze_example_places:
  "booze_places [bar_node, diner_node] =
     [toPlace collectTypes bar_node, toPlace collectTypes diner_node]"
  by (simp add: booze_places_def dedupeById_def normalizeElement_def bar_node_def diner_node_def
      node_def toPlace_def Let_def)

lemma booze_example_categories:
  "categories (toPlace collectTypes bar_node) = [''bar'']"
  "categories (toPlace collectTypes diner_node) = []"
  "pid (toPlace collectTypes bar_node) = ''node/5''"
  "pid (toPlace collectTypes diner_node) = ''node/6''"
  "tags (toPlace collectTypes diner_node) = [''amenity'' \<mapsto> ''restaurant'', ''name'' \<mapsto> ''Diner'']"
  by (simp_all add: toPlace_def Let_def bar_node_def diner_node_def node_def collectTypes_bar
      collectTypes_diner)

lemma booze_example_load:
  "loadPlaces [''mirror''] (\<lambda>i. Http 200 (Parsed (Obj (Arr [bar_node, diner_node]))))
     (\<lambda>i. FetchRejects (Thrown [])) =
   Inr [toPlace collectTypes bar_node, toPlace collectTypes diner_node]"
  by (simp add: loadPlaces_def fetchOverpass_def res_ok_def booze_example_places)

lemma booze_example_run:
  "booze_run no_collation initial_state
     [Initialize (Inr [toPlace collectTypes bar_node, toPlace collectTypes diner_node])] =
   initial_state\<lparr>allPlaces := [toPlace collectTypes bar_node, toPlace collectTypes diner_node],
     uniqueCategories := [''bar''], currentFiltered := [toPlace collectTypes bar_node]\<rparr>"
  by (simp add: booze_run_def booze_initialize_def booze_applyFilters_def booze_keeps_def
      buildTypesList_def Let_def booze_example_categories initial_state_def sort_cmp_def
      distinct_first_def no_collation_def)

section \<open>The rule of the category filter\<close>

text \<open>
  C2, as amended.  In every state that a session reaches from the start of a program
  (nothing fetched yet): in the food programs (\<^verbatim>\<open>applyFilters\<close> of app.js) a venue of the
  fetched list is in the filtered list if and only if the two subtype toggles let it pass
  and it has no category or at least one of its categories is not excluded; in the booze
  programs (\<^verbatim>\<open>applyFilters\<close> of booze.js) a venue of the fetched list is in the filtered
  list if and only if at least one of its types is not excluded, so that a venue without
  any type is never kept.
\<close>

theorem category_filter_rule:
  assumes "allPlaces s0 = []" and "uniqueCategories s0 = []" and "currentFiltered s0 = []"
    and "p \<in> set (allPlaces (app_run lc s0 es))"
    and "q \<in> set (allPlaces (booze_run lc s0 es'))"
  shows "(p \<in> set (currentFiltered (app_run lc s0 es)) \<longleftrightarrow>
            \<not> (tags p ''amenity'' = Some ''fast_food'' \<and> \<not> includeFastFood (app_run lc s0 es)) \<and>
            \<not> (tags p ''amenity'' = Some ''cafe'' \<and> \<not> includeCafe (app_run lc s0 es)) \<and>
            (categories p = [] \<or> (\<exists>c\<in>set (categories p). c \<notin> excluded (app_run lc s0 es)))) \<and>
         (q \<in> set (currentFiltered (booze_run lc s0 es')) \<longleftrightarrow>
            (\<exists>t\<in>set (categories q). t \<notin> excluded (booze_run lc s0 es')))"
proof -
  define a where "a = app_run lc s0 es"
  define b where "b = booze_run lc s0 es'"
  have a0: "currentFiltered s0 = filter (app_keeps s0) (allPlaces s0)"
    "set (uniqueCategories s0) = (\<Union>p\<in>set (allPlaces s0). set (categories p))"
    using assms(1,2,3) by simp_all
  have b0: "currentFiltered s0 = filter (booze_keeps s0) (allPlaces s0)"
    "uniqueCategories s0 = uniqueCategories (buildTypesList lc s0)"
    using assms(1,2,3) by (simp_all add: buildTypesList_def Let_def sort_cmp_def distinct_first_def)
  from app_run_invariant [OF a0, of lc es]
  have a1: "currentFiltered a = filter (app_keeps a) (allPlaces a)"
    and a2: "set (uniqueCategories a) = (\<Union>p\<in>set (allPlaces a). set (categories p))"
    by (simp_all add: a_def)
  from booze_run_invariant [OF b0, of es']
  have b1: "currentFiltered b = filter (booze_keeps b) (allPlaces b)"
    and b2: "uniqueCategories b = uniqueCategories (buildTypesList lc b)"
    by (simp_all add: b_def)
  from assms(4) a2 have "set (categories p) \<subseteq> set (uniqueCategories a)" by (auto simp: a_def)
  then have "app_keeps a p \<longleftrightarrow>
     \<not> (tags p ''amenity'' = Some ''fast_food'' \<and> \<not> includeFastFood a) \<and>
     \<not> (tags p ''amenity'' = Some ''cafe'' \<and> \<not> includeCafe a) \<and>
     (categories p = [] \<or> (\<exists>c\<in>set (categories p). c \<notin> excluded a))"
    by (rule app_keeps_rule)
  moreover have "p \<in> set (currentFiltered a) \<longleftrightarrow> app_keeps a p"
    using assms(4) by (simp add: a1) (simp add: a_def)
  moreover have "booze_keeps b q \<longleftrightarrow> (\<exists>t\<in>set (categories q). t \<notin> excluded b)"
    using b2 assms(5) unfolding b_def by (rule booze_keeps_rule)
  moreover have "q \<in> set (currentFiltered b) \<longleftrightarrow> booze_keeps b q"
    using assms(5) by (simp add: b1) (simp add: b_def)
  ultimately show ?thesis unfolding a_def b_def by blast
qed

theorem category_filter_rule_witness:
  "venue ''node/1'' ''restaurant'' ''Roma'' [''italian'', ''pizza''] \<in>
     set (currentFiltered (app_run no_collation initial_state
       [Initialize (Inr two_foods), CategoryChange ''italian'' True])) \<and>
   toPlace collectTypes diner_node \<notin>
     set (currentFiltered (booze_run no_collation initial_state
       [Initialize (Inr [toPlace collectTypes bar_node, toPlace collectTypes diner_node])]))"
proof -
  have i: "allPlaces initial_state = []" "uniqueCategories initial_state = []"
    "currentFiltered initial_state = []"
    by (simp_all add: initial_state_def)
  have p: "venue ''node/1'' ''restaurant'' ''Roma'' [''italian'', ''pizza''] \<in>
      set (allPlaces (app_run no_collation initial_state
        [Initialize (Inr two_foods), CategoryChange ''italian'' True]))"
    by (simp add: two_foods_run) (simp add: two_foods_def)
  have q: "toPlace collectTypes diner_node \<in>
      set (allPlaces (booze_run no_collation initial_state
        [Initialize (Inr [toPlace collectTypes bar_node, toPlace collectTypes diner_node])]))"
    by (simp add: booze_example_run)
  have e: "excluded (app_run no_collation initial_state
        [Initialize (Inr two_foods), CategoryChange ''italian'' True]) = {''italian''}"
    by (simp add: two_foods_run)
  from category_filter_rule [OF i p q]
  show ?thesis by (simp add: e booze_example_categories) (simp add: venue_def)
qed

text \<open>
  The claim fails on booze.js: of the two venues that \<^verbatim>\<open>loadPlaces\<close> builds from a bar
  and a plain restaurant, the restaurant has no type, it is in the fetched list, and
  \<^verbatim>\<open>applyFilters\<close> does not keep it although nothing is excluded.
\<close>

theorem zero_category_venue_dropped:
  "loadPlaces [''mirror''] (\<lambda>i. Http 200 (Parsed (Obj (Arr [bar_node, diner_node]))))
     (\<lambda>i. FetchRejects (Thrown [])) =
     Inr [toPlace collectTypes bar_node, toPlace collectTypes diner_node] \<and>
   categories (toPlace collectTypes diner_node) = [] \<and>
   excluded (booze_run no_collation initial_state
     [Initialize (Inr [toPlace collectTypes bar_node, toPlace collectTypes diner_node])]) = {} \<and>
   toPlace collectTypes diner_node \<in>
     set (allPlaces (booze_run no_collation initial_state
       [Initialize (Inr [toPlace collectTypes bar_node, toPlace collectTypes diner_node])])) \<and>
   toPlace collectTypes diner_node \<notin>
     set (currentFiltered (booze_run no_collation initial_state
       [Initialize (Inr [toPlace collectTypes bar_node, toPlace collectTypes diner_node])]))"
proof -
  have "pid (toPlace collectTypes diner_node) \<noteq> pid (toPlace collectTypes bar_node)"
    by (simp add: booze_example_categories)
  then have "toPlace collectTypes diner_node \<noteq> toPlace collectTypes bar_node" by auto
  then show ?thesis
    by (simp add: booze_example_load booze_example_categories booze_example_run)
      (simp add: initial_state_def)
qed

section \<open>The filtered list\<close>

lemma app_step_allPlaces: "allPlaces (app_step lc s e) = last_fetch (allPlaces s) [e]"
proof (cases e)
  case (Initialize outcome)
  then show ?thesis
    by (cases outcome) (simp_all add: app_initialize_def collectUniqueCuisines_def)
qed (simp_all add: app_spinWheel_frame timeout_frame)

lemma booze_step_allPlaces: "allPlaces (booze_step lc s e) = last_fetch (allPlaces s) [e]"
proof (cases e)
  case (Initialize outcome)
  then show ?thesis
    by (cases outcome) (simp_all add: booze_initialize_def)
qed (simp_all add: booze_spinWheel_frame timeout_frame)

lemma last_fetch_step: "last_fetch (last_fetch ps [e]) es = last_fetch ps (e # es)"
proof (cases e)
  case (Initialize outcome)
  then show ?thesis by (cases outcome) simp_all
qed simp_all

lemma app_run_allPlaces: "allPlaces (app_run lc s es) = last_fetch (allPlaces s) es"
proof (induction es arbitrary: s)
  case Nil
  show ?case by (simp add: app_run_def)
next
  case (Cons e es)
  have "allPlaces (app_run lc s (e # es)) = allPlaces (app_run lc (app_step lc s e) es)"
    by (simp add: app_run_def)
  also have "\<dots> = last_fetch (last_fetch (allPlaces s) [e]) es"
    by (simp only: Cons.IH app_step_allPlaces)
  finally show ?case by (simp only: last_fetch_step)
qed

lemma booze_run_allPlaces: "allPlaces (booze_run lc s es) = last_fetch (allPlaces s) es"
proof (induction es arbitrary: s)
  case Nil
  show ?case by (simp add: booze_run_def)
next
  case (Cons e es)
  have "allPlaces (booze_run lc s (e # es)) = allPlaces (booze_run lc (booze_step lc s e) es)"
    by (simp add: booze_run_def)
  also have "\<dots> = last_fetch (last_fetch (allPlaces s) [e]) es"
    by (simp only: Cons.IH booze_step_allPlaces)
  finally show ?case by (simp only: last_fetch_step)
qed

lemma app_run_passes:
  assumes "allPlaces s0 = []" and "uniqueCategories s0 = []" and "currentFiltered s0 = []"
  shows "currentFiltered (app_run lc s0 es) =
         filter (passes_food (app_run lc s0 es)) (last_fetch [] es)"
proof -
  define a where "a = app_run lc s0 es"
  have a0: "currentFiltered s0 = filter (app_keeps s0) (allPlaces s0)"
    "set (uniqueCategories s0) = (\<Union>p\<in>set (allPlaces s0). set (categories p))"
    using assms by simp_all
  from app_run_invariant [OF a0, of lc es]
  have a1: "currentFiltered a = filter (app_keeps a) (allPlaces a)"
    and a2: "set (uniqueCategories a) = (\<Union>p\<in>set (allPlaces a). set (categories p))"
    by (simp_all add: a_def)
  have "app_keeps a p = passes_food a p" if "p \<in> set (allPlaces a)" for p
  proof -
    from that a2 have "set (categories p) \<subseteq> set (uniqueCategories a)" by auto
    then show ?thesis unfolding passes_food_def by (rule app_keeps_rule)
  qed
  then have "filter (app_keeps a) (allPlaces a) = filter (passes_food a) (allPlaces a)"
    by (intro filter_cong refl)
  with a1 have "currentFiltered a = filter (passes_food a) (allPlaces a)" by simp
  then show ?thesis unfolding a_def by (simp add: app_run_allPlaces assms(1))
qed

lemma booze_run_passes:
  assumes "allPlaces s0 = []" and "uniqueCategories s0 = []" and "currentFiltered s0 = []"
  shows "currentFiltered (booze_run lc s0 es) =
         filter (passes_booze (booze_run lc s0 es)) (last_fetch [] es)"
proof -
  define b where "b = booze_run lc s0 es"
  have b0: "currentFiltered s0 = filter (booze_keeps s0) (allPlaces s0)"
    "uniqueCategories s0 = uniqueCategories (buildTypesList lc s0)"
    using assms by (simp_all add: buildTypesList_def Let_def sort_cmp_def distinct_first_def)
  from booze_run_invariant [OF b0, of es]
  have b1: "currentFiltered b = filter (booze_keeps b) (allPlaces b)"
    and b2: "uniqueCategories b = uniqueCategories (buildTypesList lc b)"
    by (simp_all add: b_def)
  have "booze_keeps b q = passes_booze b q" if "q \<in> set (allPlaces b)" for q
    unfolding passes_booze_def using b2 that by (rule booze_keeps_rule)
  then have "filter (booze_keeps b) (allPlaces b) = filter (passes_booze b) (allPlaces b)"
    by (intro filter_cong refl)
  with b1 have "currentFiltered b = filter (passes_booze b) (allPlaces b)" by simp
  then show ?thesis unfolding b_def by (simp add: booze_run_allPlaces assms(1))
qed


lemma session_reload_fails:
  "app_run no_collation initial_state
     [Initialize (Inr three_venues), FastFoodChange False, Initialize (Inl OverpassFailed)] =
   initial_state\<lparr>allPlaces := three_venues, uniqueCategories := [''italian'', ''burger'', ''mexican''],
     includeFastFood := False,
     currentFiltered := [venue ''node/1'' ''restaurant'' ''Roma'' [''italian'']]\<rparr>"
  by (simp add: app_run_def app_initialize_def app_applyFilters_def app_keeps_def
      collectUniqueCuisines_def initial_state_def three_venues_def venue_def sort_cmp_def
      distinct_first_def no_collation_def)

lemma session_nothing_left:
  "app_run no_collation initial_state
     [Initialize (Inr three_venues), FastFoodChange False, CategoryChange ''italian'' True] =
   initial_state\<lparr>allPlaces := three_venues, uniqueCategories := [''italian'', ''burger'', ''mexican''],
     includeFastFood := False, excluded := {''italian''}, currentFiltered := []\<rparr>"
  by (simp add: app_run_def app_initialize_def app_applyFilters_def app_keeps_def
      collectUniqueCuisines_def initial_state_def three_venues_def venue_def sort_cmp_def
      distinct_first_def no_collation_def)


text \<open>
  C5, as amended.  No event but an \<^verbatim>\<open>initialize\<close> whose fetch succeeds changes the
  list of all venues: a fetch that fails, a change of a filter, a spin and a timer leave it
  as it is.  So in every state that a session reaches from the start of a program the list
  of all venues is the list of the most recent successful fetch, and the filtered list
  holds, in the same order, exactly the venues of that list that satisfy the active
  filters: it is a sublist, which may be the whole list.  It is empty if and only if no
  venue of the most recent successful fetch satisfies the active filters, and then a click
  on the spin button changes nothing.
\<close>

theorem filtered_list_is_sublist:
  assumes "allPlaces s0 = []" and "uniqueCategories s0 = []" and "currentFiltered s0 = []"
  shows "allPlaces (app_step lc s e) = last_fetch (allPlaces s) [e] \<and>
         allPlaces (app_run lc s0 es) = last_fetch [] es \<and>
         currentFiltered (app_run lc s0 es) =
           filter (passes_food (app_run lc s0 es)) (last_fetch [] es) \<and>
         subseq (currentFiltered (app_run lc s0 es)) (last_fetch [] es) \<and>
         (currentFiltered (app_run lc s0 es) = [] \<longleftrightarrow>
            \<not> list_ex (passes_food (app_run lc s0 es)) (last_fetch [] es)) \<and>
         (currentFiltered (app_run lc s0 es) = [] \<longrightarrow>
            app_step lc (app_run lc s0 es) (SpinClick u1 u2 u3) = app_run lc s0 es) \<and>
         allPlaces (booze_step lc s e) = last_fetch (allPlaces s) [e] \<and>
         allPlaces (booze_run lc s0 es) = last_fetch [] es \<and>
         currentFiltered (booze_run lc s0 es) =
           filter (passes_booze (booze_run lc s0 es)) (last_fetch [] es) \<and>
         subseq (currentFiltered (booze_run lc s0 es)) (last_fetch [] es) \<and>
         (currentFiltered (booze_run lc s0 es) = [] \<longleftrightarrow>
            \<not> list_ex (passes_booze (booze_run lc s0 es)) (last_fetch [] es)) \<and>
         (currentFiltered (booze_run lc s0 es) = [] \<longrightarrow>
            booze_step lc (booze_run lc s0 es) (SpinClick u1 u2 u3) = booze_run lc s0 es)"
proof -
  note a = app_run_passes [OF assms, of lc es]
  note b = booze_run_passes [OF assms, of lc es]
  have 1: "allPlaces (app_run lc s0 es) = last_fetch [] es"
    by (simp add: app_run_allPlaces assms(1))
  have 2: "allPlaces (booze_run lc s0 es) = last_fetch [] es"
    by (simp add: booze_run_allPlaces assms(1))
  have 3: "subseq (currentFiltered (app_run lc s0 es)) (last_fetch [] es)"
    unfolding a by simp
  have 4: "subseq (currentFiltered (booze_run lc s0 es)) (last_fetch [] es)"
    unfolding b by simp
  have 5: "currentFiltered (app_run lc s0 es) = [] \<longleftrightarrow>
            \<not> list_ex (passes_food (app_run lc s0 es)) (last_fetch [] es)"
    unfolding a by (simp add: filter_empty_conv list_ex_iff)
  have 6: "currentFiltered (booze_run lc s0 es) = [] \<longleftrightarrow>
            \<not> list_ex (passes_booze (booze_run lc s0 es)) (last_fetch [] es)"
    unfolding b by (simp add: filter_empty_conv list_ex_iff)
  have 7: "currentFiltered (app_run lc s0 es) = [] \<longrightarrow>
            app_step lc (app_run lc s0 es) (SpinClick u1 u2 u3) = app_run lc s0 es"
    by (simp add: app_spinWheel_idle)
  have 8: "currentFiltered (booze_run lc s0 es) = [] \<longrightarrow>
            booze_step lc (booze_run lc s0 es) (SpinClick u1 u2 u3) = booze_run lc s0 es"
    by (simp add: booze_spinWheel_idle)
  from app_step_allPlaces [of lc s e] booze_step_allPlaces [of lc s e] 1 2 a b 3 4 5 6 7 8
  show ?thesis by (intro conjI)
qed

theorem filtered_list_is_sublist_witness:
  "last_fetch []
     [Initialize (Inr three_venues), FastFoodChange False, Initialize (Inl OverpassFailed)] =
     three_venues \<and>
   allPlaces (app_run no_collation initial_state
     [Initialize (Inr three_venues), FastFoodChange False, Initialize (Inl OverpassFailed)]) =
     three_venues \<and>
   currentFiltered (app_run no_collation initial_state
     [Initialize (Inr three_venues), FastFoodChange False, Initialize (Inl OverpassFailed)]) =
     [venue ''node/1'' ''restaurant'' ''Roma'' [''italian'']] \<and>
   subseq [venue ''node/1'' ''restaurant'' ''Roma'' [''italian'']] three_venues \<and>
   currentFiltered (app_run no_collation initial_state
     [Initialize (Inr three_venues), FastFoodChange False, CategoryChange ''italian'' True]) = [] \<and>
   \<not> list_ex (passes_food (app_run no_collation initial_state
        [Initialize (Inr three_venues), FastFoodChange False, CategoryChange ''italian'' True]))
      three_venues \<and>
   app_step no_collation (app_run no_collation initial_state
       [Initialize (Inr three_venues), FastFoodChange False, CategoryChange ''italian'' True])
     (SpinClick (1/2) (1/4) 0) =
     app_run no_collation initial_state
       [Initialize (Inr three_venues), FastFoodChange False, CategoryChange ''italian'' True] \<and>
   currentFiltered (booze_run no_collation initial_state []) = [] \<and>
   booze_step no_collation (booze_run no_collation initial_state []) (SpinClick (1/2) (1/4) 0) =
     booze_run no_collation initial_state []"
proof -
  define es1 where
    "es1 = [Initialize (Inr three_venues), FastFoodChange False, Initialize (Inl OverpassFailed)]"
  define es2 where
    "es2 = [Initialize (Inr three_venues), FastFoodChange False, CategoryChange ''italian'' True]"
  have i: "allPlaces initial_state = []" "uniqueCategories initial_state = []"
    "currentFiltered initial_state = []"
    by (simp_all add: initial_state_def)
  have l1: "last_fetch [] es1 = three_venues" and l2: "last_fetch [] es2 = three_venues"
    by (simp_all add: es1_def es2_def)
  have v1: "currentFiltered (app_run no_collation initial_state es1) =
      [venue ''node/1'' ''restaurant'' ''Roma'' [''italian'']]"
    unfolding es1_def by (simp add: session_reload_fails)
  have v2: "currentFiltered (app_run no_collation initial_state es2) = []"
    unfolding es2_def by (simp add: session_nothing_left)
  have v3: "currentFiltered (booze_run no_collation initial_state []) = []"
    by (simp add: booze_run_def initial_state_def)
  note t1 = filtered_list_is_sublist [OF i, where lc = no_collation and es = es1
      and s = initial_state and e = TimerFires and ?u1.0 = "1/2" and ?u2.0 = "1/4" and ?u3.0 = 0]
  note t2 = filtered_list_is_sublist [OF i, where lc = no_collation and es = es2
      and s = initial_state and e = TimerFires and ?u1.0 = "1/2" and ?u2.0 = "1/4" and ?u3.0 = 0]
  note t3 = filtered_list_is_sublist [OF i, where lc = no_collation and es = "[]"
      and s = initial_state and e = TimerFires and ?u1.0 = "1/2" and ?u2.0 = "1/4" and ?u3.0 = 0]
  from t1 have a1: "allPlaces (app_run no_collation initial_state es1) = three_venues"
    unfolding l1 by (elim conjE)
  from t1 have "subseq (currentFiltered (app_run no_collation initial_state es1)) three_venues"
    unfolding l1 by (elim conjE)
  then have s1: "subseq [venue ''node/1'' ''restaurant'' ''Roma'' [''italian'']] three_venues"
    unfolding v1 .
  from t2 have "currentFiltered (app_run no_collation initial_state es2) = [] \<longleftrightarrow>
      \<not> list_ex (passes_food (app_run no_collation initial_state es2)) three_venues"
    unfolding l2 by (elim conjE)
  with v2 have n2: "\<not> list_ex (passes_food (app_run no_collation initial_state es2)) three_venues"
    by (rule iffD1 [rotated])
  from t2 have "currentFiltered (app_run no_collation initial_state es2) = [] \<longrightarrow>
      app_step no_collation (app_run no_collation initial_state es2) (SpinClick (1/2) (1/4) 0) =
      app_run no_collation initial_state es2"
    by (elim conjE)
  with v2 have p2: "app_step no_collation (app_run no_collation initial_state es2)
      (SpinClick (1/2) (1/4) 0) = app_run no_collation initial_state es2"
    by (rule mp [rotated])
  from t3 have "currentFiltered (booze_run no_collation initial_state []) = [] \<longrightarrow>
      booze_step no_collation (booze_run no_collation initial_state []) (SpinClick (1/2) (1/4) 0) =
      booze_run no_collation initial_state []"
    by (elim conjE)
  with v3 have p3: "booze_step no_collation (booze_run no_collation initial_state [])
      (SpinClick (1/2) (1/4) 0) = booze_run no_collation initial_state []"
    by (rule mp [rotated])
  from l1 a1 v1 s1 v2 n2 p2 v3 p3 show ?thesis
    unfolding es1_def es2_def by (intro conjI)
qed


text \<open>
  The filtered list is not always a strict subset of the fetched list: with all three
  venues kept it is the whole list.
\<close>

theorem filtered_list_not_strict:
  "currentFiltered (app_applyFilters ready_state) = allPlaces (app_applyFilters ready_state) \<and>
   \<not> set (currentFiltered (app_applyFilters ready_state)) \<subset> set (allPlaces (app_applyFilters ready_state))"
  by (simp add: app_applyFilters_def app_keeps_def ready_state_def initial_state_def
      three_venues_def venue_def)

section \<open>Properties of the category extraction\<close>

lemma lower_char_not_upper: "lower_char c \<notin> set upper_letters"
  by (simp add: lower_char_def upper_letters_def lower_letters_def)

lemma lower_char_fixed: "lower_char c \<notin> set lower_letters \<Longrightarrow> lower_char c = c"
  by (simp add: lower_char_def upper_letters_def lower_letters_def split: if_splits)

lemma toLowerCase_ascii:
  "list_all is_ascii v \<Longrightarrow> toLowerCase v = map lower_char v"
  by (simp add: toLowerCase_def)

lemma strip_leading_no_prefix:
  "w \<in> set ws \<Longrightarrow> w \<noteq> [] \<Longrightarrow> \<not> prefix w (strip_leading ws s)"
proof (induction ws s rule: strip_leading.induct)
  case (1 ws s)
  show ?case
  proof (cases "List.find (\<lambda>w. w \<noteq> [] \<and> prefix w s) ws")
    case None
    then have "strip_leading ws s = s" by (subst strip_leading.simps) simp
    moreover from None 1(2,3) have "\<not> prefix w s" by (auto simp: find_None_iff)
    ultimately show ?thesis by simp
  next
    case (Some v)
    then have "strip_leading ws s = strip_leading ws (drop (length v) s)"
      by (subst strip_leading.simps) simp
    with 1(1) [OF Some 1(2,3)] show ?thesis by simp
  qed
qed

lemma strip_leading_suffix: "suffix (strip_leading ws s) s"
proof (induction ws s rule: strip_leading.induct)
  case (1 ws s)
  show ?case
  proof (cases "List.find (\<lambda>w. w \<noteq> [] \<and> prefix w s) ws")
    case None
    then have "strip_leading ws s = s" by (subst strip_leading.simps) simp
    then show ?thesis by simp
  next
    case (Some v)
    then have "strip_leading ws s = strip_leading ws (drop (length v) s)"
      by (subst strip_leading.simps) simp
    with 1 [OF Some] show ?thesis
      by (metis suffix_drop suffix_order.trans)
  qed
qed

lemma white_space_nonempty: "w \<in> set white_space \<Longrightarrow> w \<noteq> []"
  by (auto simp: white_space_def)

lemma trim_trimmed: "trimmed (trim s)"
proof -
  define a where "a = strip_leading white_space s"
  define b where "b = strip_leading (map rev white_space) (rev a)"
  have t: "trim s = rev b" by (simp add: trim_def a_def b_def)
  have "\<not> prefix w (rev b)" if w: "w \<in> set white_space" for w
  proof
    assume p: "prefix w (rev b)"
    have "suffix b (rev a)" unfolding b_def by (rule strip_leading_suffix)
    then have "prefix (rev b) a" by (simp add: suffix_to_prefix)
    with p have "prefix w a" by (rule prefix_order.trans)
    with strip_leading_no_prefix [OF w white_space_nonempty [OF w], of s] show False
      by (simp add: a_def)
  qed
  moreover have "\<not> suffix w (rev b)" if w: "w \<in> set white_space" for w
  proof
    assume "suffix w (rev b)"
    then have "prefix (rev w) b" by (simp add: suffix_to_prefix)
    moreover have "rev w \<in> set (map rev white_space)" "rev w \<noteq> []"
      using w white_space_nonempty [OF w] by auto
    ultimately show False using strip_leading_no_prefix [of "rev w" "map rev white_space" "rev a"]
      by (simp add: b_def)
  qed
  ultimately show ?thesis by (auto simp: trimmed_def t list_ex_iff)
qed

lemma trim_set: "set (trim s) \<subseteq> set s"
proof -
  have "set (strip_leading ws x) \<subseteq> set x" for ws x
    using strip_leading_suffix [of ws x] by (rule set_mono_suffix)
  from this [of "map rev white_space" "rev (strip_leading white_space s)"] this [of white_space s]
  show ?thesis by (auto simp: trim_def)
qed

lemma split_on_set: "x \<in> set (split_on d s) \<Longrightarrow> set x \<subseteq> set s"
proof (induction s arbitrary: x)
  case Nil
  then show ?case by simp
next
  case (Cons c cs)
  show ?case
  proof (cases "c = d")
    case True
    with Cons show ?thesis by auto
  next
    case False
    show ?thesis
    proof (cases "split_on d cs")
      case Nil
      with Cons.prems False show ?thesis by simp
    next
      case (Cons w ws')
      with Cons.prems False have "x = c # w \<or> x \<in> set ws'" by simp
      then show ?thesis
      proof
        assume "x = c # w"
        moreover have "set w \<subseteq> set cs" using Cons.IH [of w] Cons by simp
        ultimately show ?thesis by auto
      next
        assume "x \<in> set ws'"
        then have "set x \<subseteq> set cs" using Cons.IH [of x] Cons by simp
        then show ?thesis by auto
      qed
    qed
  qed
qed

lemma extractCuisines_value:
  assumes "c \<in> set (extractCuisines tgs)"
  shows "c \<noteq> [] \<and> (\<exists>x. trimmed x \<and> c = toLowerCase x)"
proof -
  from assms obtain x where "c = toLowerCase (trim x)" and "c \<noteq> []"
    unfolding extractCuisines_def by auto
  with trim_trimmed [of x] show ?thesis by blast
qed

lemma white_space_letters:
  "list_all (\<lambda>w. list_all (\<lambda>ch. ch \<notin> set lower_letters) w) white_space"
  by (simp add: white_space_def lower_letters_def)

lemma white_space_no_letter:
  "w \<in> set white_space \<Longrightarrow> ch \<in> set w \<Longrightarrow> ch \<notin> set lower_letters"
  using white_space_letters unfolding list_all_iff by blast

lemma map_lower_char_eq:
  assumes "map lower_char x = w" "\<forall>ch\<in>set w. ch \<notin> set lower_letters"
  shows "x = w"
  using assms
proof (induction x arbitrary: w)
  case Nil
  then show ?case by simp
next
  case (Cons c cs)
  from Cons.prems obtain b bs where w: "w = b # bs" "lower_char c = b" "map lower_char cs = bs"
    by (cases w) auto
  from Cons.prems(2) w have "lower_char c \<notin> set lower_letters" by simp
  then have "lower_char c = c" by (rule lower_char_fixed)
  moreover from Cons.prems(2) w(1) have "\<forall>ch\<in>set bs. ch \<notin> set lower_letters" by simp
  with w(3) have "cs = bs" by (rule Cons.IH)
  ultimately show ?case using w by simp
qed

lemma trimmed_lower:
  assumes "trimmed x"
  shows "trimmed (map lower_char x)"
proof -
  have p: "\<not> prefix w (map lower_char x)" if w: "w \<in> set white_space" for w
  proof
    assume "prefix w (map lower_char x)"
    then obtain zs where z: "map lower_char x = w @ zs" by (auto simp: prefix_def)
    then have "take (length w) (map lower_char x) = w" by simp
    then have "map lower_char (take (length w) x) = w" by (simp add: take_map)
    moreover have "\<forall>ch\<in>set w. ch \<notin> set lower_letters"
      using white_space_no_letter [OF w] by blast
    ultimately have "take (length w) x = w" by (rule map_lower_char_eq)
    then have "prefix w x" using take_is_prefix [of "length w" x] by simp
    with assms w show False unfolding trimmed_def list_ex_iff by blast
  qed
  have s: "\<not> suffix w (map lower_char x)" if w: "w \<in> set white_space" for w
  proof
    assume "suffix w (map lower_char x)"
    then obtain ys where y: "map lower_char x = ys @ w" by (auto simp: suffix_def)
    then have "drop (length ys) (map lower_char x) = w" by simp
    then have "map lower_char (drop (length ys) x) = w" by (simp add: drop_map)
    moreover have "\<forall>ch\<in>set w. ch \<notin> set lower_letters"
      using white_space_no_letter [OF w] by blast
    ultimately have "drop (length ys) x = w" by (rule map_lower_char_eq)
    then have "suffix w x" using suffix_drop [of "length ys" x] by simp
    with assms w show False unfolding trimmed_def list_ex_iff by blast
  qed
  from p s show ?thesis unfolding trimmed_def list_ex_iff by blast
qed

lemma extractCuisines_ascii:
  assumes a: "list_all is_ascii (or_else (tgs ''cuisine'') [])"
    and c: "c \<in> set (extractCuisines tgs)"
  shows "trimmed c \<and> (\<forall>ch\<in>set c. ch \<notin> set upper_letters)"
proof -
  from c obtain x where x: "x \<in> set (split_on CHR '';'' (or_else (tgs ''cuisine'') []))"
    and cx: "c = toLowerCase (trim x)"
    unfolding extractCuisines_def by auto
  have "set (trim x) \<subseteq> set (or_else (tgs ''cuisine'') [])"
    using trim_set [of x] split_on_set [OF x] by blast
  with a have "list_all is_ascii (trim x)" unfolding list_all_iff by blast
  then have "c = map lower_char (trim x)" by (simp add: cx toLowerCase_ascii)
  with trimmed_lower [OF trim_trimmed, of x] lower_char_not_upper show ?thesis by auto
qed

lemma distinct_distinct_first: "distinct (distinct_first xs)"
  using dedupe_loop_distinct [of "\<lambda>x. x" "{}" xs] by (simp add: distinct_first_def)

lemma collectTypes_values:
  "set (collectTypes tgs) \<subseteq>
     set [''bar'', ''pub'', ''biergarten'', ''nightclub'', ''restaurant'', ''cafe'', ''brewery'']"
  unfolding collectTypes_def Let_def set_distinct_first
  by (auto simp: nightlife_def split: option.splits if_splits)

lemma collectTypes_lafayette_values:
  "set (collectTypes_lafayette tgs) \<subseteq>
     set [''bar'', ''pub'', ''biergarten'', ''nightclub'', ''restaurant'', ''cafe'', ''brewery'']"
  unfolding collectTypes_lafayette_def Let_def set_distinct_first
  by (auto simp: nightlife_def split: option.splits if_splits)

lemma type_values_lower:
  "list_all (\<lambda>t. toLowerCase t = t \<and> list_all (\<lambda>ch. ch \<notin> set upper_letters) t)
     [''bar'', ''pub'', ''biergarten'', ''nightclub'', ''restaurant'', ''cafe'', ''brewery'']"
  by (simp add: upper_letters_def toLowerCase_def is_ascii_def lower_char_def lower_letters_def)

lemma extractCuisines_italian_pizza:
  "extractCuisines [''cuisine'' \<mapsto> '' Italian;PIZZA ;;''] = [''italian'', ''pizza'']"
  by (simp add: extractCuisines_def or_else_def trim_def strip_leading.simps white_space_def
      toLowerCase_def is_ascii_def lower_char_def upper_letters_def lower_letters_def)

lemma extractCuisines_twice:
  "extractCuisines [''cuisine'' \<mapsto> ''italian;Italian''] = [''italian'', ''italian'']"
  by (simp add: extractCuisines_def or_else_def trim_def strip_leading.simps white_space_def
      toLowerCase_def is_ascii_def lower_char_def upper_letters_def lower_letters_def)

lemma collectTypes_lafayette_example:
  "collectTypes_lafayette [''amenity'' \<mapsto> ''restaurant'', ''alcohol'' \<mapsto> ''Yes''] = [''restaurant'']"
  by (simp add: collectTypes_lafayette_def Let_def nightlife_def or_else_def is_yes_def
      toLowerCase_def is_ascii_def lower_char_def upper_letters_def lower_letters_def
      distinct_first_def)

lemma type_is_lower:
  assumes "t \<in> set [''bar'', ''pub'', ''biergarten'', ''nightclub'', ''restaurant'', ''cafe'', ''brewery'']"
  shows "toLowerCase t = t \<and> (\<forall>ch\<in>set t. ch \<notin> set upper_letters)"
  using type_values_lower assms unfolding list_all_iff by blast




section \<open>Properties of the fetch\<close>

lemma case_snoc:
  "(case xs @ [e] of [] \<Rightarrow> d | y # _ \<Rightarrow> f y) = (case xs of [] \<Rightarrow> f e | y # _ \<Rightarrow> f y)"
  by (cases xs) simp_all

lemma upt_attempts:
  "zip (url # urls) (map respond [i..<i + length (url # urls)]) =
     (url, respond i) # zip urls (map respond [Suc i..<Suc i + length urls])"
  by (simp add: upt_rec)

lemma overpass_pass_spec:
  "overpass_pass respond i urls lastErr =
     (case List.map_filter (\<lambda>a. accepted (snd a)) (zip urls (map respond [i..<i + length urls])) of
        els # _ \<Rightarrow> Inr els
      | [] \<Rightarrow> Inl (case rev (List.map_filter observed_error
                   (zip urls (map respond [i..<i + length urls]))) of
                 e # _ \<Rightarrow> Some e
               | [] \<Rightarrow> lastErr))"
proof (induction urls arbitrary: i lastErr)
  case Nil
  show ?case by (simp add: List.map_filter_simps)
next
  case (Cons url urls)
  define A where "A = zip urls (map respond [Suc i..<Suc i + length urls])"
  have IH: "overpass_pass respond (Suc i) urls le =
     (case List.map_filter (\<lambda>a. accepted (snd a)) A of
        els # _ \<Rightarrow> Inr els
      | [] \<Rightarrow> Inl (case rev (List.map_filter observed_error A) of e # _ \<Rightarrow> Some e | [] \<Rightarrow> le))" for le
    unfolding A_def by (rule Cons.IH)
  have att: "zip (url # urls) (map respond [i..<i + length (url # urls)]) = (url, respond i) # A"
    unfolding A_def by (rule upt_attempts)
  show ?case
  proof (cases "respond i")
    case (FetchRejects e)
    then have "accepted (respond i) = None" "observed_error (url, respond i) = Some e"
      by (simp_all add: accepted_def observed_error_def)
    with FetchRejects show ?thesis
      unfolding att
      by (cases "List.map_filter (\<lambda>a. accepted (snd a)) A")
        (simp_all add: IH List.map_filter_simps case_snoc)
  next
    case (Http status b)
    show ?thesis
    proof (cases "res_ok status")
      case False
      with Http have "accepted (respond i) = None"
        "observed_error (url, respond i) = Some (OverpassError status url)"
        by (simp_all add: accepted_def observed_error_def
            split: body.splits json.splits elements_field.splits)
      with Http False show ?thesis
        unfolding att
      by (cases "List.map_filter (\<lambda>a. accepted (snd a)) A")
        (simp_all add: IH List.map_filter_simps case_snoc)
    next
      case True
      show ?thesis
      proof (cases b)
        case (JsonRejects e)
        with Http True have "accepted (respond i) = None" "observed_error (url, respond i) = Some e"
          by (simp_all add: accepted_def observed_error_def)
        with Http True JsonRejects show ?thesis
          unfolding att
      by (cases "List.map_filter (\<lambda>a. accepted (snd a)) A")
        (simp_all add: IH List.map_filter_simps case_snoc)
      next
        case (Parsed j)
        with Http True have er: "observed_error (url, respond i) = None"
          by (simp add: observed_error_def)
        show ?thesis
        proof (cases "\<exists>x xs. j = Obj (Arr (x # xs))")
          case True
          then obtain x xs where j: "j = Obj (Arr (x # xs))" by blast
          with Http \<open>res_ok status\<close> Parsed have "accepted (respond i) = Some (x # xs)"
            by (simp add: accepted_def)
          with Http \<open>res_ok status\<close> Parsed j show ?thesis
            unfolding att by (simp add: List.map_filter_simps)
        next
          case False
          with Http \<open>res_ok status\<close> Parsed have ac: "accepted (respond i) = None"
            by (auto simp: accepted_def neq_Nil_conv split: json.splits elements_field.splits)
          from False have "overpass_pass respond i (url # urls) lastErr =
              overpass_pass respond (Suc i) urls lastErr"
            using Http \<open>res_ok status\<close> Parsed
            by (auto simp: neq_Nil_conv split: json.splits elements_field.splits)
          with ac er show ?thesis
            unfolding att
            by (cases "List.map_filter (\<lambda>a. accepted (snd a)) A")
              (simp_all add: IH List.map_filter_simps)
        qed
      qed
    qed
  qed
qed

lemma map_filter_append:
  "List.map_filter f (xs @ ys) = List.map_filter f xs @ List.map_filter f ys"
  by (simp add: List.map_filter_def)

lemma fetchOverpass_spec:
  "fetchOverpass endpoints broad narrow =
     spec_fetch (attempts endpoints broad @ attempts endpoints narrow)"
proof -
  define Gb where "Gb = List.map_filter (\<lambda>a. accepted (snd a)) (attempts endpoints broad)"
  define Gn where "Gn = List.map_filter (\<lambda>a. accepted (snd a)) (attempts endpoints narrow)"
  define Eb where "Eb = rev (List.map_filter observed_error (attempts endpoints broad))"
  define En where "En = rev (List.map_filter observed_error (attempts endpoints narrow))"
  have p1: "overpass_pass broad 0 endpoints None =
      (case Gb of els # _ \<Rightarrow> Inr els
       | [] \<Rightarrow> Inl (case Eb of e # _ \<Rightarrow> Some e | [] \<Rightarrow> None))"
    unfolding Gb_def Eb_def attempts_def
    by (rule overpass_pass_spec [of broad 0 endpoints None, unfolded add_0])
  have p2: "overpass_pass narrow 0 endpoints le =
      (case Gn of els # _ \<Rightarrow> Inr els
       | [] \<Rightarrow> Inl (case En of e # _ \<Rightarrow> Some e | [] \<Rightarrow> le))" for le
    unfolding Gn_def En_def attempts_def
    by (rule overpass_pass_spec [of narrow 0 endpoints le, unfolded add_0])
  have sp: "spec_fetch (attempts endpoints broad @ attempts endpoints narrow) =
      (case Gb @ Gn of els # _ \<Rightarrow> Inr els
       | [] \<Rightarrow> (case En @ Eb of e # _ \<Rightarrow> Inl e | [] \<Rightarrow> Inl NoElements))"
    by (simp add: spec_fetch_def map_filter_append Gb_def Gn_def Eb_def En_def cong: list.case_cong)
  show ?thesis
    unfolding fetchOverpass_def p1 p2 sp
    by (cases Gb; cases Gn; cases Eb; cases En) simp_all
qed

lemma places_loop_spec:
  "places_loop respond i urls lastErr =
     (case dropWhile (\<lambda>a. observed_error a \<noteq> None) (zip urls (map respond [i..<i + length urls])) of
        [] \<Rightarrow> (None,
          case rev (List.map_filter observed_error (zip urls (map respond [i..<i + length urls]))) of
            e # _ \<Rightarrow> Some e | [] \<Rightarrow> lastErr)
      | a # _ \<Rightarrow> (case snd a of Http status (Parsed j) \<Rightarrow> Some j | _ \<Rightarrow> None,
          case rev (List.map_filter observed_error
                 (takeWhile (\<lambda>a. observed_error a \<noteq> None)
                    (zip urls (map respond [i..<i + length urls])))) of
            e # _ \<Rightarrow> Some e | [] \<Rightarrow> lastErr))"
proof (induction urls arbitrary: i lastErr)
  case Nil
  show ?case by (simp add: List.map_filter_simps)
next
  case (Cons url urls)
  define A where "A = zip urls (map respond [Suc i..<Suc i + length urls])"
  have IH: "places_loop respond (Suc i) urls le =
     (case dropWhile (\<lambda>a. observed_error a \<noteq> None) A of
        [] \<Rightarrow> (None, case rev (List.map_filter observed_error A) of e # _ \<Rightarrow> Some e | [] \<Rightarrow> le)
      | a # _ \<Rightarrow> (case snd a of Http status (Parsed j) \<Rightarrow> Some j | _ \<Rightarrow> None,
          case rev (List.map_filter observed_error
                 (takeWhile (\<lambda>a. observed_error a \<noteq> None) A)) of
            e # _ \<Rightarrow> Some e | [] \<Rightarrow> le))" for le
    unfolding A_def by (rule Cons.IH)
  have att: "zip (url # urls) (map respond [i..<i + length (url # urls)]) = (url, respond i) # A"
    unfolding A_def by (rule upt_attempts)
  show ?case
  proof (cases "observed_error (url, respond i)")
    case (Some e)
    then have step: "places_loop respond i (url # urls) lastErr =
        places_loop respond (Suc i) urls (Some e)"
      by (auto simp: observed_error_def split: response.splits if_splits body.splits)
    from Some show ?thesis
      unfolding att step IH
      by (cases "dropWhile (\<lambda>a. observed_error a \<noteq> None) A")
        (simp_all add: List.map_filter_simps case_snoc
          del: places_loop.simps dropWhile_eq_Nil_conv cong: list.case_cong)
  next
    case None
    then obtain status j where r: "respond i = Http status (Parsed j)" "res_ok status"
      by (auto simp: observed_error_def split: response.splits if_splits body.splits)
    with None show ?thesis
      unfolding att by (simp add: List.map_filter_simps)
  qed
qed

lemma fetchPlaces_spec:
  "fetchPlaces endpoints respond = spec_fetchPlaces (attempts endpoints respond)"
proof -
  define A where "A = attempts endpoints respond"
  have pl: "places_loop respond 0 endpoints None =
     (case dropWhile (\<lambda>a. observed_error a \<noteq> None) A of
        [] \<Rightarrow> (None, case rev (List.map_filter observed_error A) of e # _ \<Rightarrow> Some e | [] \<Rightarrow> None)
      | a # _ \<Rightarrow> (case snd a of Http status (Parsed j) \<Rightarrow> Some j | _ \<Rightarrow> None,
          case rev (List.map_filter observed_error
                 (takeWhile (\<lambda>a. observed_error a \<noteq> None) A)) of
            e # _ \<Rightarrow> Some e | [] \<Rightarrow> None))"
    unfolding A_def attempts_def
    by (rule places_loop_spec [of respond 0 endpoints None, unfolded add_0])
  have le: "(case (case rev (List.map_filter observed_error X) of e # _ \<Rightarrow> Some e | [] \<Rightarrow> None) of
       None \<Rightarrow> OverpassFailed | Some e \<Rightarrow> e) = last_error OverpassFailed X" for X
    by (simp add: last_error_def split: list.splits)
  show ?thesis
  proof (cases "dropWhile (\<lambda>a. observed_error a \<noteq> None) A")
    case Nil
    then show ?thesis
      unfolding fetchPlaces_def spec_fetchPlaces_def A_def [symmetric] pl
      by (simp add: le del: dropWhile_eq_Nil_conv)
  next
    case (Cons a rest)
    then have "observed_error a = None"
      using hd_dropWhile [of "\<lambda>a. observed_error a \<noteq> None" A] by simp
    then obtain url status j where a: "a = (url, Http status (Parsed j))"
      by (cases a) (auto simp: observed_error_def split: response.splits if_splits body.splits)
    show ?thesis
      unfolding fetchPlaces_def spec_fetchPlaces_def A_def [symmetric] pl Cons a
      by (cases j rule: json.exhaust; simp add: le split: elements_field.splits)
  qed
qed

lemma spec_fetch_fails:
  "(\<exists>e. spec_fetch as = Inl e) \<longleftrightarrow> (\<forall>a\<in>set as. accepted (snd a) = None)"
proof -
  have "List.map_filter (\<lambda>a. accepted (snd a)) as = [] \<longleftrightarrow> (\<forall>a\<in>set as. accepted (snd a) = None)"
    by (simp add: List.map_filter_def filter_empty_conv)
  then show ?thesis
    by (cases "List.map_filter (\<lambda>a. accepted (snd a)) as")
      (simp_all add: spec_fetch_def split: list.splits)
qed

text \<open>
  C3, as amended.  \<^verbatim>\<open>fetchOverpass\<close> (the booze programs) tries every mirror with the
  broad query and then every mirror with the narrow query, and returns the elements of the
  first response, in that order, that is transport-successful and holds at least one
  element; it fails only when none of these attempts gives such a response, and then with
  the last error that an attempt raised, or with the error "no elements" when no attempt
  raised one.  \<^verbatim>\<open>fetchPlaces\<close> (the food programs) makes one pass with one query and
  takes the first response without a transport error, whatever it holds: an empty list of
  elements gives an empty list of venues.
\<close>

theorem venue_fetch_protocol:
  "fetchOverpass endpoints broad narrow =
     spec_fetch (attempts endpoints broad @ attempts endpoints narrow) \<and>
   ((\<exists>e. fetchOverpass endpoints broad narrow = Inl e) \<longleftrightarrow>
      (\<forall>a\<in>set (attempts endpoints broad @ attempts endpoints narrow). accepted (snd a) = None)) \<and>
   fetchPlaces endpoints respond = spec_fetchPlaces (attempts endpoints respond)"
  by (simp only: fetchOverpass_spec fetchPlaces_spec spec_fetch_fails simp_thms)

lemma attempts_three:
  "attempts [a, b, c] f = [(a, f 0), (b, f 1), (c, f 2)]"
  by (simp add: attempts_def upt_rec numeral_2_eq_2)

lemma attempts_two:
  "attempts [a, b] f = [(a, f 0), (b, f 1)]"
  by (simp add: attempts_def upt_rec)

theorem venue_fetch_protocol_witness:
  "fetchOverpass [''m1'', ''m2'', ''m3''] (\<lambda>i. FetchRejects (Thrown ''down''))
     (\<lambda>i. Http 200 (Parsed (Obj (Arr [bar_node])))) = Inr [bar_node] \<and>
   fetchOverpass [''m1'', ''m2'', ''m3''] (\<lambda>i. Http 504 (Parsed Falsy))
     (\<lambda>i. if i = 1 then FetchRejects (Thrown ''down'') else Http 200 (Parsed (Obj (Arr [])))) =
     Inl (Thrown ''down'') \<and>
   fetchOverpass [''m1'', ''m2'', ''m3''] (\<lambda>i. Http 200 (Parsed (Obj (Arr []))))
     (\<lambda>i. Http 200 (Parsed (Obj Missing))) = Inl NoElements \<and>
   fetchPlaces [''m1'', ''m2'', ''m3'']
     (\<lambda>i. if i = 0 then Http 504 (Parsed Falsy) else Http 200 (Parsed (Obj (Arr [])))) = Inr []"
  using venue_fetch_protocol [of "[''m1'', ''m2'', ''m3'']" "\<lambda>i. FetchRejects (Thrown ''down'')"
      "\<lambda>i. Http 200 (Parsed (Obj (Arr [bar_node])))"
      "\<lambda>i. if i = 0 then Http 504 (Parsed Falsy) else Http 200 (Parsed (Obj (Arr [])))"]
    venue_fetch_protocol [of "[''m1'', ''m2'', ''m3'']" "\<lambda>i. Http 504 (Parsed Falsy)"
      "\<lambda>i. if i = 1 then FetchRejects (Thrown ''down'') else Http 200 (Parsed (Obj (Arr [])))"]
    venue_fetch_protocol [of "[''m1'', ''m2'', ''m3'']" "\<lambda>i. Http 200 (Parsed (Obj (Arr [])))"
      "\<lambda>i. Http 200 (Parsed (Obj Missing))"]
  by (simp add: attempts_three spec_fetch_def spec_fetchPlaces_def List.map_filter_simps
      accepted_def observed_error_def res_ok_def last_error_def app_places_def dedupeById_def)

text \<open>
  The claim fails on \<^verbatim>\<open>fetchPlaces\<close>: when the first mirror answers with an empty list
  of elements and the second would answer with a restaurant, the fetch returns no venue,
  although the first response that is transport-successful and holds an element is the
  second one.
\<close>

theorem fetchPlaces_accepts_empty_response:
  "fetchPlaces [''m1'', ''m2'']
     (\<lambda>i. if i = 0 then Http 200 (Parsed (Obj (Arr [])))
           else Http 200 (Parsed (Obj (Arr [pizza_node])))) = Inr [] \<and>
   spec_fetch (attempts [''m1'', ''m2'']
     (\<lambda>i. if i = 0 then Http 200 (Parsed (Obj (Arr [])))
           else Http 200 (Parsed (Obj (Arr [pizza_node]))))) = Inr [pizza_node] \<and>
   length (app_places [pizza_node]) = 1"
  by (simp add: fetchPlaces_def res_ok_def attempts_two spec_fetch_def List.map_filter_simps
      accepted_def app_places_def dedupeById_def normalizeElement_def pizza_node_def node_def)

section \<open>Properties of the search radius\<close>

lemma js_atan2_nonneg: "0 \<le> y \<Longrightarrow> 0 \<le> x \<Longrightarrow> 0 \<le> js_atan2 y x"
  by (auto simp: js_atan2_def zero_le_arctan_iff)

lemma haversine_of_unit:
  assumes "0 \<le> a" "a \<le> 1"
  shows "(case (js_sqrt a, js_sqrt (1 - a)) of
            (Some sa, Some sb) \<Rightarrow> Some (6371000 * (2 * js_atan2 sa sb))
          | _ \<Rightarrow> None) = Some (6371000 * (2 * js_atan2 (sqrt a) (sqrt (1 - a)))) \<and>
         0 \<le> 6371000 * (2 * js_atan2 (sqrt a) (sqrt (1 - a)))"
  using assms js_atan2_nonneg [of "sqrt a" "sqrt (1 - a)"] by (simp add: js_sqrt_def)

lemma sin_sq_unit: "0 \<le> sin x * sin x \<and> sin x * sin x \<le> (1::real)"
proof -
  have "sin x * sin x = (sin x)\<^sup>2" by (simp add: power2_eq_square)
  moreover have "(sin x)\<^sup>2 \<le> 1" using abs_sin_le_one [of x] by (simp add: abs_square_le_1)
  ultimately show ?thesis by simp
qed

lemma cos_sq_unit: "0 \<le> cos x * cos x \<and> cos x * cos x \<le> (1::real)"
proof -
  have "cos x * cos x = (cos x)\<^sup>2" by (simp add: power2_eq_square)
  moreover have "(cos x)\<^sup>2 \<le> 1" using abs_cos_le_one [of x] by (simp add: abs_square_le_1)
  ultimately show ?thesis by simp
qed

lemma haversine_meridian:
  "\<exists>d. haversineDistanceMeters la lo x lo = Some d \<and> 0 \<le> d"
proof -
  define a where "a = sin (toRad (x - la) / 2) * sin (toRad (x - la) / 2)"
  have a: "0 \<le> a" "a \<le> 1" using sin_sq_unit [of "toRad (x - la) / 2"] by (simp_all add: a_def)
  have "haversineDistanceMeters la lo x lo =
      (case (js_sqrt a, js_sqrt (1 - a)) of
         (Some sa, Some sb) \<Rightarrow> Some (6371000 * (2 * js_atan2 sa sb))
       | _ \<Rightarrow> None)"
    by (simp add: haversineDistanceMeters_def Let_def a_def toRad_def cong: option.case_cong)
  with haversine_of_unit [OF a] show ?thesis by simp
qed

lemma haversine_parallel:
  "\<exists>d. haversineDistanceMeters la lo la x = Some d \<and> 0 \<le> d"
proof -
  define c where "c = cos (toRad la) * cos (toRad la)"
  define t where "t = sin (toRad (x - lo) / 2) * sin (toRad (x - lo) / 2)"
  define a where "a = c * t"
  have "0 \<le> c" "c \<le> 1" "0 \<le> t" "t \<le> 1"
    using cos_sq_unit [of "toRad la"] sin_sq_unit [of "toRad (x - lo) / 2"]
    by (simp_all add: c_def t_def)
  then have a: "0 \<le> a" "a \<le> 1" unfolding a_def by (simp_all add: mult_le_one)
  have "haversineDistanceMeters la lo la x =
      (case (js_sqrt a, js_sqrt (1 - a)) of
         (Some sa, Some sb) \<Rightarrow> Some (6371000 * (2 * js_atan2 sa sb))
       | _ \<Rightarrow> None)"
    by (simp add: haversineDistanceMeters_def Let_def a_def c_def t_def toRad_def mult.assoc
        cong: option.case_cong)
  with haversine_of_unit [OF a] show ?thesis by simp
qed

lemma computeSearchRadiusMeters_finite:
  fixes s w n e la lo dflt :: real
  defines "m \<equiv> Max {edge_distance la lo n lo, edge_distance la lo s lo,
                     edge_distance la lo la e, edge_distance la lo la w}"
  shows "computeSearchRadiusMeters dflt
           (Some \<lparr>south = Some s, west = Some w, north = Some n, east = Some e\<rparr>) (Some la) (Some lo) =
         (if 0 < m then spec_searchRadius s w n e la lo else max 2500 (min 30000 dflt))"
proof -
  obtain dN dS dE dW where d:
    "haversineDistanceMeters la lo n lo = Some dN" "haversineDistanceMeters la lo s lo = Some dS"
    "haversineDistanceMeters la lo la e = Some dE" "haversineDistanceMeters la lo la w = Some dW"
    using haversine_meridian [of la lo n] haversine_meridian [of la lo s]
      haversine_parallel [of la lo e] haversine_parallel [of la lo w] by blast
  have m: "m = max dN (max dS (max dE dW))"
    by (simp add: m_def edge_distance_def d)
  have c: "computeSearchRadiusMeters dflt
        (Some \<lparr>south = Some s, west = Some w, north = Some n, east = Some e\<rparr>) (Some la) (Some lo) =
      max 2500 (min 30000 (if m * 1.05 \<le> 0 then dflt else m * 1.05))"
    by (simp add: computeSearchRadiusMeters_def Let_def d m)
  have sp: "spec_searchRadius s w n e la lo = max 2500 (min 30000 (1.05 * m))"
    by (simp add: spec_searchRadius_def m_def)
  show ?thesis unfolding c sp by (simp add: mult.commute) 
qed

lemma atan2_of_half_angle:
  assumes "\<bar>t\<bar> \<le> pi / 2"
  shows "js_atan2 (sqrt (sin t * sin t)) (sqrt (1 - sin t * sin t)) = \<bar>t\<bar>"
proof -
  have c0: "0 \<le> cos t" using assms by (intro cos_ge_zero) (simp_all add: abs_le_iff)
  have s1: "sqrt (sin t * sin t) = \<bar>sin t\<bar>" by simp
  have "1 - sin t * sin t = cos t * cos t"
    using sin_cos_squared_add [of t] by (simp add: power2_eq_square)
  then have s2: "sqrt (1 - sin t * sin t) = cos t" using c0 by simp
  have sa: "sin \<bar>t\<bar> = \<bar>sin t\<bar>"
  proof (cases "0 \<le> t")
    case True
    with assms have "0 \<le> sin t" by (intro sin_ge_zero) (simp_all add: abs_le_iff)
    with True show ?thesis by simp
  next
    case False
    with assms have "0 \<le> sin (- t)" by (intro sin_ge_zero) (simp_all add: abs_le_iff)
    with False show ?thesis by simp
  qed
  show ?thesis
  proof (cases "cos t = 0")
    case False
    with c0 have cp: "0 < cos t" by simp
    have lt: "\<bar>t\<bar> < pi / 2"
    proof (rule ccontr)
      assume "\<not> \<bar>t\<bar> < pi / 2"
      with assms have e: "\<bar>t\<bar> = pi / 2" by simp
      have "cos t = cos \<bar>t\<bar>" by simp
      also have "\<dots> = cos (pi / 2)" by (simp only: e)
      finally have "cos t = 0" by simp
      with False show False by simp
    qed
    have "tan \<bar>t\<bar> = \<bar>sin t\<bar> / cos t" by (simp add: tan_def sa)
    then have "arctan (\<bar>sin t\<bar> / cos t) = \<bar>t\<bar>"
      using arctan_tan [of "\<bar>t\<bar>"] lt by simp
    with cp show ?thesis unfolding s1 s2 by (simp add: js_atan2_def)
  next
    case True
    have "\<bar>t\<bar> = pi / 2"
    proof (rule ccontr)
      assume "\<bar>t\<bar> \<noteq> pi / 2"
      with assms have "- (pi / 2) < t" "t < pi / 2" by (simp_all add: abs_le_iff abs_if split: if_splits)
      then have "0 < cos t" by (rule cos_gt_zero_pi)
      with True show False by simp
    qed
    moreover have "sin t * sin t = 1"
      using sin_cos_squared_add [of t] True by (simp add: power2_eq_square)
    then have "0 < \<bar>sin t\<bar>" by auto
    ultimately show ?thesis unfolding s1 s2 using True by (simp add: js_atan2_def)
  qed
qed

lemma haversine_meridian_value:
  assumes "\<bar>x - la\<bar> \<le> 180"
  shows "haversineDistanceMeters la lo x lo = Some (6371000 * \<bar>toRad (x - la)\<bar>)"
proof -
  define t where "t = toRad (x - la) / 2"
  have "\<bar>x - la\<bar> * pi \<le> 180 * pi" using assms by (simp add: mult_right_mono)
  then have t: "\<bar>t\<bar> \<le> pi / 2" by (simp add: t_def toRad_def abs_mult)
  have a: "0 \<le> sin t * sin t" "sin t * sin t \<le> 1" using sin_sq_unit [of t] by simp_all
  have "haversineDistanceMeters la lo x lo =
      (case (js_sqrt (sin t * sin t), js_sqrt (1 - sin t * sin t)) of
         (Some sa, Some sb) \<Rightarrow> Some (6371000 * (2 * js_atan2 sa sb))
       | _ \<Rightarrow> None)"
    by (simp add: haversineDistanceMeters_def Let_def t_def toRad_def cong: option.case_cong)
  also have "\<dots> = Some (6371000 * (2 * js_atan2 (sqrt (sin t * sin t)) (sqrt (1 - sin t * sin t))))"
    using haversine_of_unit [OF a] by simp
  also have "\<dots> = Some (6371000 * (2 * \<bar>t\<bar>))"
    by (simp only: atan2_of_half_angle [OF t])
  also have "2 * \<bar>t\<bar> = \<bar>toRad (x - la)\<bar>" by (simp add: t_def)
  finally show ?thesis .
qed

lemma computeSearchRadiusMeters_cases:
  "computeSearchRadiusMeters dflt box lat lon = dflt \<and>
     (box = None \<or> lat = None \<or> lon = None \<or>
       (\<exists>b. box = Some b \<and> (south b = None \<or> west b = None \<or> north b = None \<or> east b = None))) \<or>
   (\<exists>s w n e la lo. box = Some \<lparr>south = Some s, west = Some w, north = Some n, east = Some e\<rparr> \<and>
      lat = Some la \<and> lon = Some lo)"
proof (cases box)
  case None
  then show ?thesis by (simp add: computeSearchRadiusMeters_def)
next
  case (Some b)
  show ?thesis
  proof (cases lat)
    case None
    with Some show ?thesis by (simp add: computeSearchRadiusMeters_def)
  next
    case la: (Some la)
    show ?thesis
    proof (cases lon)
      case None
      with Some la show ?thesis by (simp add: computeSearchRadiusMeters_def)
    next
      case lo: (Some lo)
      show ?thesis
      proof (cases "south b")
        case None
        with Some la lo show ?thesis by (simp add: computeSearchRadiusMeters_def)
      next
        case s: (Some s)
        show ?thesis
        proof (cases "west b")
          case None
          with Some la lo s show ?thesis by (simp add: computeSearchRadiusMeters_def)
        next
          case w: (Some w)
          show ?thesis
          proof (cases "north b")
            case None
            with Some la lo s w show ?thesis by (simp add: computeSearchRadiusMeters_def)
          next
            case n: (Some n)
            show ?thesis
            proof (cases "east b")
              case None
              with Some la lo s w n show ?thesis by (simp add: computeSearchRadiusMeters_def)
            next
              case e: (Some e)
              from s w n e have "b = \<lparr>south = Some s, west = Some w, north = Some n, east = Some e\<rparr>"
                by (cases b) simp
              with Some la lo show ?thesis by blast
            qed
          qed
        qed
      qed
    qed
  qed
qed

lemma computeSearchRadiusMeters_range:
  assumes "2500 \<le> dflt" "dflt \<le> 30000"
  shows "2500 \<le> computeSearchRadiusMeters dflt box lat lon \<and>
         computeSearchRadiusMeters dflt box lat lon \<le> 30000"
proof -
  consider (d) "computeSearchRadiusMeters dflt box lat lon = dflt"
    | (f) s w n e la lo where
        "box = Some \<lparr>south = Some s, west = Some w, north = Some n, east = Some e\<rparr>"
        "lat = Some la" "lon = Some lo"
    using computeSearchRadiusMeters_cases [of dflt box lat lon] by blast
  then show ?thesis
  proof cases
    case d
    with assms show ?thesis by simp
  next
    case f
    then show ?thesis
      using computeSearchRadiusMeters_finite [of dflt s w n e la lo]
      by (simp add: spec_searchRadius_def del: Max_insert)
  qed
qed

lemma computeSearchRadiusMeters_missing:
  assumes "box = None \<or> lat = None \<or> lon = None \<or>
     (\<exists>b. box = Some b \<and> (south b = None \<or> west b = None \<or> north b = None \<or> east b = None))"
  shows "computeSearchRadiusMeters dflt box lat lon = dflt"
  using computeSearchRadiusMeters_cases [of dflt box lat lon] assms by auto

text \<open>
  C4, as amended.  With the default 9000 or 12000 of the program: for a bounding box with
  finite edges and a finite centroid, wherever the centroid lies, the four distances from
  the centroid to the edges are defined, and \<^verbatim>\<open>computeSearchRadiusMeters\<close> returns the
  largest of them times 1.05, clamped into the interval from 2500 to 30000, when that
  largest distance is positive, and the default when it is zero (a box that is the point
  of the centroid); for a missing box or a missing or non-finite coordinate it returns the
  default; and for every input the result lies between 2500 and 30000.
\<close>

theorem search_radius_clamped:
  assumes "dflt = 9000 \<or> dflt = 12000"
  shows "computeSearchRadiusMeters dflt
           (Some \<lparr>south = Some s, west = Some w, north = Some n, east = Some e\<rparr>) (Some la) (Some lo) =
         (if 0 < Max {edge_distance la lo n lo, edge_distance la lo s lo,
                      edge_distance la lo la e, edge_distance la lo la w}
          then spec_searchRadius s w n e la lo else dflt) \<and>
         haversineDistanceMeters la lo n lo \<noteq> None \<and> haversineDistanceMeters la lo s lo \<noteq> None \<and>
         haversineDistanceMeters la lo la e \<noteq> None \<and> haversineDistanceMeters la lo la w \<noteq> None \<and>
         (box = None \<or> lat = None \<or> lon = None \<or>
            (\<exists>b. box = Some b \<and> (south b = None \<or> west b = None \<or> north b = None \<or> east b = None))
          \<longrightarrow> computeSearchRadiusMeters dflt box lat lon = dflt) \<and>
         2500 \<le> computeSearchRadiusMeters dflt box lat lon \<and>
         computeSearchRadiusMeters dflt box lat lon \<le> 30000"
proof -
  from assms have d: "2500 \<le> dflt" "dflt \<le> 30000" "max 2500 (min 30000 dflt) = dflt" by auto
  have "haversineDistanceMeters la lo n lo \<noteq> None" "haversineDistanceMeters la lo s lo \<noteq> None"
    "haversineDistanceMeters la lo la e \<noteq> None" "haversineDistanceMeters la lo la w \<noteq> None"
    using haversine_meridian [of la lo n] haversine_meridian [of la lo s]
      haversine_parallel [of la lo e] haversine_parallel [of la lo w] by auto
  then show ?thesis
    using computeSearchRadiusMeters_finite [of dflt s w n e la lo]
      computeSearchRadiusMeters_missing [of box lat lon dflt]
      computeSearchRadiusMeters_range [OF d(1,2), of box lat lon]
    by (simp only: d(3)) blast
qed

text \<open>
  The scenario of the specification: the centroid lies north of the box, the southern
  edge is more than 33 km away, and the radius is clamped to 30000.
\<close>

theorem search_radius_clamped_witness:
  "computeSearchRadiusMeters 9000
     (Some \<lparr>south = Some 39.95, west = Some (- 87.05), north = Some 40.10, east = Some (- 86.75)\<rparr>)
     (Some 40.4167) (Some (- 86.8753)) = 30000 \<and>
   computeSearchRadiusMeters 12000 None (Some 40.4167) (Some (- 86.8753)) = 12000 \<and>
   computeSearchRadiusMeters 12000
     (Some \<lparr>south = Some 39.95, west = None, north = Some 40.10, east = Some (- 86.75)\<rparr>)
     (Some 40.4167) (Some (- 86.8753)) = 12000"
proof -
  define m :: real where "m = Max {edge_distance 40.4167 (- 86.8753) 40.10 (- 86.8753),
      edge_distance 40.4167 (- 86.8753) 39.95 (- 86.8753),
      edge_distance 40.4167 (- 86.8753) 40.4167 (- 86.75),
      edge_distance 40.4167 (- 86.8753) 40.4167 (- 87.05)}"
  have "edge_distance 40.4167 (- 86.8753) 39.95 (- 86.8753) = 6371000 * \<bar>toRad (39.95 - 40.4167)\<bar>"
    using haversine_meridian_value [of "39.95" "40.4167" "- 86.8753"] by (simp add: edge_distance_def)
  also have "\<dots> = 6371000 * (0.4667 * pi / 180)" by (simp add: toRad_def)
  finally have dS: "edge_distance 40.4167 (- 86.8753) 39.95 (- 86.8753) = 6371000 * (0.4667 * pi / 180)" .
  have "(33000::real) < 6371000 * (0.4667 * 2 / 180)" by simp
  also have "\<dots> \<le> 6371000 * (0.4667 * pi / 180)" using pi_ge_two by simp
  finally have "33000 < edge_distance 40.4167 (- 86.8753) 39.95 (- 86.8753)" by (simp only: dS)
  moreover have "edge_distance 40.4167 (- 86.8753) 39.95 (- 86.8753) \<le> m"
    unfolding m_def by (rule Max_ge) simp_all
  ultimately have m: "33000 < m" by simp
  have "spec_searchRadius 39.95 (- 87.05) 40.10 (- 86.75) 40.4167 (- 86.8753) =
      max 2500 (min 30000 (1.05 * m))"
    unfolding spec_searchRadius_def m_def by (rule refl)
  with m have sp: "spec_searchRadius 39.95 (- 87.05) 40.10 (- 86.75) 40.4167 (- 86.8753) = 30000"
    by simp
  have a: "(9000::real) = 9000 \<or> (9000::real) = 12000" by simp
  have b: "(12000::real) = 9000 \<or> (12000::real) = 12000" by simp
  note t1 = search_radius_clamped [OF a, where s = "39.95" and w = "- 87.05" and n = "40.10"
      and e = "- 86.75" and la = "40.4167" and lo = "- 86.8753", folded m_def]
  note t2 = search_radius_clamped [OF b, where box = None and lat = "Some 40.4167"
      and lon = "Some (- 86.8753)"]
  note t3 = search_radius_clamped [OF b,
      where box = "Some \<lparr>south = Some 39.95, west = None, north = Some 40.10, east = Some (- 86.75)\<rparr>"
      and lat = "Some 40.4167" and lon = "Some (- 86.8753)"]
  have 1: "computeSearchRadiusMeters 9000
     (Some \<lparr>south = Some 39.95, west = Some (- 87.05), north = Some 40.10, east = Some (- 86.75)\<rparr>)
     (Some 40.4167) (Some (- 86.8753)) = 30000"
    using t1 m sp by simp
  have 2: "computeSearchRadiusMeters 12000 None (Some 40.4167) (Some (- 86.8753)) = 12000"
    using t2 by blast
  have 3: "computeSearchRadiusMeters 12000
     (Some \<lparr>south = Some 39.95, west = None, north = Some 40.10, east = Some (- 86.75)\<rparr>)
     (Some 40.4167) (Some (- 86.8753)) = 12000"
    using t3 by simp
  from 1 2 3 show ?thesis by simp
qed

text \<open>
  The claim fails on a box that is the point of the centroid: the four distances are zero,
  their maximum times 1.05 clamped is 2500, and the function returns the default.
\<close>

theorem point_box_gets_default:
  "computeSearchRadiusMeters 12000
     (Some \<lparr>south = Some 40, west = Some (- 86), north = Some 40, east = Some (- 86)\<rparr>)
     (Some 40) (Some (- 86)) = 12000 \<and>
   spec_searchRadius 40 (- 86) 40 (- 86) 40 (- 86) = 2500"
proof -
  have h: "haversineDistanceMeters 40 (- 86) 40 (- 86) = Some 0"
    using haversine_meridian_value [of 40 40 "- 86"] by (simp add: toRad_def)
  show ?thesis
    by (simp add: computeSearchRadiusMeters_def spec_searchRadius_def edge_distance_def Let_def h)
qed

section \<open>Further properties of the filters and of the wheel\<close>

text \<open>
  X1.  Applying the filters twice gives the same filtered list, and the same state, as
  applying them once.
\<close>

theorem applyFilters_idempotent:
  "app_applyFilters (app_applyFilters s) = app_applyFilters s \<and>
   booze_applyFilters (booze_applyFilters s) = booze_applyFilters s"
proof -
  have "app_applyFilters (app_applyFilters s) =
      (app_applyFilters s)\<lparr>currentFiltered := filter (app_keeps (app_applyFilters s)) (allPlaces (app_applyFilters s))\<rparr>"
    by (simp add: app_applyFilters_def)
  moreover have "booze_applyFilters (booze_applyFilters s) =
      (booze_applyFilters s)\<lparr>currentFiltered :=
        filter (booze_keeps (booze_applyFilters s)) (allPlaces (booze_applyFilters s))\<rparr>"
    by (simp add: booze_applyFilters_def)
  ultimately show ?thesis
    by (simp add: app_applyFilters_def booze_applyFilters_def
        app_keeps_applyFilters [unfolded app_applyFilters_def]
        booze_keeps_applyFilters [unfolded booze_applyFilters_def])
qed

text \<open>
  X2.  On a filtered list with a single venue a spin still turns the wheel (the state is
  spinning and the rotation has grown) and the timer reveals that venue, whatever the
  draws are.
\<close>

theorem single_candidate_is_chosen:
  assumes "\<not> isSpinning s" and "currentFiltered s = [p]"
    and "unit_draw u1" and "unit_draw u2" and "unit_draw u3"
  shows "resultCard (timeout (booze_spinWheel u1 u2 u3 s)) = Some p \<and>
         resultCard (timeout (app_spinWheel u1 u2 s)) = Some p \<and>
         isSpinning (booze_spinWheel u1 u2 u3 s) \<and> isSpinning (app_spinWheel u1 u2 s) \<and>
         accumulatedRotation s < accumulatedRotation (booze_spinWheel u1 u2 u3 s) \<and>
         accumulatedRotation s < accumulatedRotation (app_spinWheel u1 u2 s)"
proof -
  have ne: "currentFiltered s \<noteq> []" using assms(2) by simp
  have v: "unit_draw (frac ((90 - accumulatedRotation s) / 360 - u2))"
    by (simp add: unit_draw_def frac_lt_1)
  have one: "\<exists>q. js_index [p] (chosenIndex (real (length [p])) u) = Some q \<and> q \<in> set [p]"
    if "unit_draw u" for u
    using that by (intro js_index_chosenIndex) simp_all
  then have c: "js_index [p] (chosenIndex 1 u) = Some p" if "unit_draw u" for u
    using that by fastforce
  have "resultCard (timeout (booze_spinWheel u1 u2 u3 s)) = Some p"
    using timeout_reveal [OF assms(1) ne assms(3), of MAX_VISUAL_SLICES u2 u3] c [OF assms(3)]
    by (simp add: booze_spinWheel_def assms(2))
  moreover have "resultCard (timeout (app_spinWheel u1 u2 s)) = Some p"
    using timeout_decode [OF assms(1) ne, of u1 u2] c [OF v] by (simp add: assms(2))
  moreover have "isSpinning (booze_spinWheel u1 u2 u3 s)" "isSpinning (app_spinWheel u1 u2 s)"
    using assms(1) ne by (simp_all add: booze_spinWheel_def spinWheel_with_def app_spinWheel_def Let_def)
  ultimately show ?thesis
    using booze_spinWheel_rotation [OF assms(5,1) ne, of u1 u2]
      app_spinWheel_rotation [OF assms(3,4,1) ne]
    by simp
qed

theorem single_candidate_is_chosen_witness:
  "resultCard (timeout (booze_spinWheel (1/2) (1/4) 0
      (initial_state\<lparr>currentFiltered := [venue ''node/1'' ''restaurant'' ''Roma'' [''italian'']]\<rparr>))) =
     Some (venue ''node/1'' ''restaurant'' ''Roma'' [''italian'']) \<and>
   resultCard (timeout (app_spinWheel (1/2) (1/4)
      (initial_state\<lparr>currentFiltered := [venue ''node/1'' ''restaurant'' ''Roma'' [''italian'']]\<rparr>))) =
     Some (venue ''node/1'' ''restaurant'' ''Roma'' [''italian''])"
proof -
  have u: "unit_draw (1/2)" "unit_draw (1/4)" "unit_draw 0" by (simp_all add: unit_draw_def)
  have s: "\<not> isSpinning (initial_state\<lparr>currentFiltered := [venue ''node/1'' ''restaurant'' ''Roma'' [''italian'']]\<rparr>)"
    "currentFiltered (initial_state\<lparr>currentFiltered := [venue ''node/1'' ''restaurant'' ''Roma'' [''italian'']]\<rparr>) =
      [venue ''node/1'' ''restaurant'' ''Roma'' [''italian'']]"
    by (simp_all add: initial_state_def)
  from single_candidate_is_chosen [OF s u] show ?thesis by blast
qed

text \<open>
  X3.  \<^verbatim>\<open>spinWheel\<close> changes nothing while a spin is in flight or while the filtered list
  is empty.
\<close>

theorem spin_is_guarded:
  assumes "isSpinning s \<or> currentFiltered s = []"
  shows "app_spinWheel u1 u2 s = s \<and> booze_spinWheel u1 u2 u3 s = s"
  using assms app_spinWheel_idle [of s u1 u2] booze_spinWheel_idle [of s u1 u2 u3] by simp

theorem spin_is_guarded_witness:
  "app_spinWheel (1/2) (1/4) (app_spinWheel (1/2) (1/4) ready_state) =
     app_spinWheel (1/2) (1/4) ready_state \<and>
   booze_spinWheel (1/2) (1/4) 0 initial_state = initial_state"
proof -
  have a: "isSpinning (app_spinWheel (1/2) (1/4) ready_state) \<or>
      currentFiltered (app_spinWheel (1/2) (1/4) ready_state) = []"
    by (simp add: app_spinWheel_def Let_def ready_state_def initial_state_def three_venues_def)
  have b: "isSpinning initial_state \<or> currentFiltered initial_state = []"
    by (simp add: initial_state_def)
  from spin_is_guarded [OF a, where ?u1.0 = "1/2" and ?u2.0 = "1/4" and ?u3.0 = 0]
    spin_is_guarded [OF b, where ?u1.0 = "1/2" and ?u2.0 = "1/4" and ?u3.0 = 0]
  show ?thesis by blast
qed

end
